theory Spec2Isabelle
  imports Complex_Main "HOL-Library.Sublist"
begin

section \<open>Exceptions\<close>

text \<open>
  The Python exceptions the two modules raise or catch, as values. \<open>str_of\<close> is Python's
  \<open>str(e)\<close>: the message of an exception, and the quoted key of a \<open>KeyError\<close>.
\<close>

datatype exn =
    HTTPException nat string
  | KeyError string
  | ValueError string
  | ZeroDivisionError string
  | AttributeError string
  | OSError string
  | JSONDecodeError string
  | Exception string

fun str_of :: "exn \<Rightarrow> string" where
  "str_of (HTTPException c d) = d"
| "str_of (KeyError k) = [CHR 0x27] @ k @ [CHR 0x27]"
| "str_of (ValueError m) = m"
| "str_of (ZeroDivisionError m) = m"
| "str_of (AttributeError m) = m"
| "str_of (OSError m) = m"
| "str_of (JSONDecodeError m) = m"
| "str_of (Exception m) = m"

section \<open>The job table of main.py\<close>

text \<open>
  A job is the dict that \<open>upload_video\<close> creates and \<open>process_in_background\<close> extends.
  A key that may be absent is an option. The keys copied from a pipeline result carry the
  prefix \<open>j_\<close>, since the result dict has keys of the same names. The \<open>analytics\<close>
  dict is opaque here.
\<close>

typedecl analytics

record job =
  job_id :: string
  status :: string
  filename :: string
  file_path :: string
  filter_type :: "string option"
  analytics :: "analytics option"
  j_sequential_time :: "real option"
  j_parallel_time :: "real option"
  j_speedup :: "real option"
  j_segments_processed :: "nat option"
  j_cpu_cores_used :: "nat option"
  j_output_filename :: "string option"
  j_output_path :: "string option"
  error :: "string option"

text \<open>
  The file \<open>jobs.json\<close>: absent, present but failing to open or parse (with the
  exception's message), or holding a table as \<open>save_jobs\<close> wrote it. A file whose
  JSON is well formed but is no table of jobs is outside this type.
\<close>

datatype jobs_file = Missing | Unparseable string | Stored "string \<rightharpoonup> job"

text \<open>
  The process state of main.py: the global \<open>jobs\<close>, the file \<open>jobs.json\<close>, and the
  background runs handed to \<open>asyncio.create_task\<close>, each with the arguments of
  \<open>process_in_background\<close> (job id, video path, filter name).
\<close>

record server =
  jobs :: "string \<rightharpoonup> job"
  jobs_file :: jobs_file
  tasks :: "(string \<times> string \<times> string) list"

text \<open>The result dict of \<open>VideoProcessor.process_video\<close>, in its two shapes.\<close>

record run_metrics =
  output_path :: string
  sequential_time :: real
  parallel_time :: real
  speedup :: real
  segments_processed :: nat
  cpu_cores_used :: nat
  audio_preserved :: bool

datatype result = Success run_metrics | Failure "string option"

text \<open>The record that \<open>upload_video\<close> stores for a new job (lines 192 and 206 to 213).\<close>

definition new_job :: "string \<Rightarrow> string \<Rightarrow> analytics option \<Rightarrow> job" where
  "new_job jid fname an =
     \<lparr>job_id = jid, status = ''uploaded'', filename = fname,
      file_path = ''uploads/'' @ jid @ ''_'' @ fname,
      filter_type = None, analytics = an,
      j_sequential_time = None, j_parallel_time = None, j_speedup = None,
      j_segments_processed = None, j_cpu_cores_used = None,
      j_output_filename = None, j_output_path = None, error = None\<rparr>"

subsection \<open>load_jobs and save_jobs\<close>

text \<open>
  The body of the \<open>try\<close> in \<open>load_jobs\<close>: nothing happens when the file does not exist,
  \<open>open\<close> or \<open>json.load\<close> raises on a file that cannot be read or parsed, and the
  parsed table replaces the global otherwise.
\<close>

definition load_jobs_try :: "server \<Rightarrow> exn + server" where
  "load_jobs_try s =
     (case jobs_file s of
        Missing \<Rightarrow> Inr s
      | Unparseable m \<Rightarrow> Inl (JSONDecodeError m)
      | Stored t \<Rightarrow> Inr (s\<lparr>jobs := t\<rparr>))"

text \<open>\<open>except Exception\<close>: the error is logged and the table is reset to \<open>{}\<close>.\<close>

definition load_jobs :: "server \<Rightarrow> exn + server" where
  "load_jobs s =
     (case load_jobs_try s of
        Inl e \<Rightarrow> Inr (s\<lparr>jobs := Map.empty\<rparr>)
      | Inr s' \<Rightarrow> Inr s')"

text \<open>
  Module start: \<open>jobs = {}\<close> (line 44), then \<open>load_jobs()\<close> (line 68), with no
  background run yet.
\<close>

definition startup :: "jobs_file \<Rightarrow> exn + server" where
  "startup f = load_jobs \<lparr>jobs = Map.empty, jobs_file = f, tasks = []\<rparr>"

text \<open>
  \<open>save_jobs\<close> dumps the table to the file. A failing write is caught and logged by
  \<open>save_jobs\<close> itself and changes nothing in memory; the model takes the write to succeed.
\<close>

definition save_jobs :: "server \<Rightarrow> server" where
  "save_jobs s = s\<lparr>jobs_file := Stored (jobs s)\<rparr>"

subsection \<open>POST /process\<close>

definition valid_filters :: "string list" where
  "valid_filters = [''grayscale'', ''blur'', ''sepia'', ''brightness'', ''contrast'',
                    ''saturation'', ''warm_tone'', ''cool_tone'', ''edge_detection'']"

text \<open>Python's \<open>sep.join(xs)\<close>.\<close>

fun join :: "string \<Rightarrow> string list \<Rightarrow> string" where
  "join sep [] = []"
| "join sep [x] = x"
| "join sep (x # y # ys) = x @ sep @ join sep (y # ys)"

text \<open>The acknowledgement that \<open>start_processing\<close> returns.\<close>

record ack =
  message :: string
  ack_job_id :: string
  ack_filter_type :: string

text \<open>
  \<open>start_processing\<close>: 404 for an unknown job, 400 for a filter outside the list, and
  otherwise the job is set to \<open>processing\<close> with the filter recorded, the table is
  saved and a background run is created. The job's current status is not read.
\<close>

definition start_processing :: "string \<Rightarrow> string \<Rightarrow> server \<Rightarrow> (exn + ack) \<times> server" where
  "start_processing jid ftype s =
     (case jobs s jid of
        None \<Rightarrow> (Inl (HTTPException 404 ''Job not found''), s)
      | Some job \<Rightarrow>
          if ftype \<notin> set valid_filters
          then (Inl (HTTPException 400
                  (''Invalid filter type. Use one of: '' @ join '', '' valid_filters)), s)
          else
            let job' = job\<lparr>status := ''processing'', filter_type := Some ftype\<rparr>;
                s1 = save_jobs (s\<lparr>jobs := (jobs s)(jid \<mapsto> job')\<rparr>);
                s2 = s1\<lparr>tasks := tasks s1 @ [(jid, file_path job', ftype)]\<rparr>
            in (Inr \<lparr>message = ''Processing started'', ack_job_id = jid,
                     ack_filter_type = ftype\<rparr>, s2))"

subsection \<open>DELETE /cleanup\<close>

text \<open>
  \<open>cleanup_job\<close> removes the job's files (outside this state) and deletes its record,
  whatever the job's status and whether or not a background run is in flight.
\<close>

definition cleanup_job :: "string \<Rightarrow> server \<Rightarrow> (exn + string) \<times> server" where
  "cleanup_job jid s =
     (case jobs s jid of
        None \<Rightarrow> (Inl (HTTPException 404 ''Job not found''), s)
      | Some job \<Rightarrow>
          (Inr ''Job cleaned up successfully'',
           save_jobs (s\<lparr>jobs := (jobs s)(jid := None)\<rparr>)))"

subsection \<open>The background run\<close>

text \<open>Python's \<open>os.path.basename\<close> on a POSIX path: what follows the last slash.\<close>

definition basename :: "string \<Rightarrow> string" where
  "basename p = rev (takeWhile (\<lambda>c. c \<noteq> CHR ''/'') (rev p))"

text \<open>
  The \<open>except\<close> block of \<open>process_in_background\<close>: it indexes \<open>jobs[job_id]\<close> again,
  so on a job that is no longer in the table it raises \<open>KeyError\<close> itself.
\<close>

definition mark_failed :: "string \<Rightarrow> exn \<Rightarrow> server \<Rightarrow> exn + server" where
  "mark_failed jid e s =
     (case jobs s jid of
        None \<Rightarrow> Inl (KeyError jid)
      | Some job \<Rightarrow>
          Inr (save_jobs (s\<lparr>jobs := (jobs s)(jid \<mapsto>
                 job\<lparr>status := ''failed'', error := Some (str_of e)\<rparr>)\<rparr>)))"

text \<open>
  \<open>process_in_background\<close>, given what \<open>run_in_executor\<close> yields: an exception (the
  executor broke) or the result of \<open>process_video_task\<close>. \<open>Inl\<close> is an exception that
  leaves the coroutine.
\<close>

definition process_in_background :: "string \<Rightarrow> exn + result \<Rightarrow> server \<Rightarrow> exn + server" where
  "process_in_background jid outcome s =
     (case outcome of
        Inl e \<Rightarrow> mark_failed jid e s
      | Inr res \<Rightarrow>
          (case jobs s jid of
             None \<Rightarrow> mark_failed jid (KeyError jid) s
           | Some job \<Rightarrow>
               (case res of
                  Success m \<Rightarrow>
                    Inr (save_jobs (s\<lparr>jobs := (jobs s)(jid \<mapsto>
                      job\<lparr>status := ''completed'',
                          j_sequential_time := Some (sequential_time m),
                          j_parallel_time := Some (parallel_time m),
                          j_speedup := Some (speedup m),
                          j_segments_processed := Some (segments_processed m),
                          j_cpu_cores_used := Some (cpu_cores_used m),
                          j_output_filename := Some (basename (output_path m)),
                          j_output_path := Some (output_path m)\<rparr>)\<rparr>))
                | Failure err \<Rightarrow>
                    Inr (save_jobs (s\<lparr>jobs := (jobs s)(jid \<mapsto>
                      job\<lparr>status := ''failed'',
                          error := Some (case err of None \<Rightarrow> ''Unknown error''
                                         | Some m \<Rightarrow> m)\<rparr>)\<rparr>)))))"

section \<open>Video files as OpenCV reads and writes them\<close>

text \<open>
  A video file is what the code can observe of it through \<open>cv2\<close>: the frame rate, the
  geometry, the frames in order, and whether the container has an audio track. The type of
  frames is a parameter; a pixel transform is a function on it. Times and frame rates are
  Python floats: reals, with the rounding of every product and quotient written out. The exceptions modelled are those that the
  two modules raise themselves or catch by name; a call into \<open>cv2\<close> is not taken to
  raise.
\<close>

record 'f video =
  fps :: real
  width :: int
  height :: int
  frames :: "'f list"
  audio :: bool

type_synonym 'f files = "string \<rightharpoonup> 'f video"

text \<open>
  \<open>cv2.VideoCapture(path)\<close> does not raise on a path that is no readable video:
  \<open>isOpened()\<close> is false, every property reads 0 and \<open>read()\<close> yields no frame.
\<close>

definition isOpened :: "'f files \<Rightarrow> string \<Rightarrow> bool" where
  "isOpened fs p = (fs p \<noteq> None)"

definition cap_fps :: "'f files \<Rightarrow> string \<Rightarrow> real" where
  "cap_fps fs p = (case fs p of None \<Rightarrow> 0 | Some v \<Rightarrow> fps v)"

definition cap_width :: "'f files \<Rightarrow> string \<Rightarrow> int" where
  "cap_width fs p = (case fs p of None \<Rightarrow> 0 | Some v \<Rightarrow> width v)"

definition cap_height :: "'f files \<Rightarrow> string \<Rightarrow> int" where
  "cap_height fs p = (case fs p of None \<Rightarrow> 0 | Some v \<Rightarrow> height v)"

definition cap_frames :: "'f files \<Rightarrow> string \<Rightarrow> 'f list" where
  "cap_frames fs p = (case fs p of None \<Rightarrow> [] | Some v \<Rightarrow> frames v)"

text \<open>
  What the host gives every run. \<open>to_double\<close> is the rounding of an exact product or
  quotient to the binary64 float that Python computes. \<open>avc1\<close> and \<open>mp4v\<close> say
  whether the local OpenCV build can encode under that fourcc code.
\<close>

record host =
  to_double :: "real \<Rightarrow> real"
  avc1 :: bool
  mp4v :: bool

text \<open>
  \<open>double_accurate fl x\<close>: rounding \<open>x\<close> moves it by at most half a unit in the last
  place. IEEE 754 gives this for every \<open>x\<close> that neither overflows nor underflows.
\<close>

definition double_accurate :: "(real \<Rightarrow> real) \<Rightarrow> real \<Rightarrow> bool" where
  "double_accurate fl x \<longleftrightarrow> \<bar>fl x - x\<bar> \<le> \<bar>x\<bar> / 2 ^ 53"

text \<open>
  \<open>cv2.VideoWriter(path, fourcc, fps, (width, height))\<close> opens when the codec can be
  encoded and the frame rate, the width and the height are positive. A writer that did
  not open drops every frame written to it and leaves no file. A writer that opened
  leaves, on \<open>release()\<close>, a file that holds the frames written, in order, with no
  audio track. A function that reads files and writes one reads the files as they were
  before it wrote; the properties below are stated for output paths that differ from
  the paths read, as they do in the pipeline.
\<close>

definition writer_opens :: "bool \<Rightarrow> real \<Rightarrow> int \<Rightarrow> int \<Rightarrow> bool" where
  "writer_opens codec r w h \<longleftrightarrow> codec \<and> 0 < r \<and> 0 < w \<and> 0 < h"

definition written :: "real \<Rightarrow> int \<Rightarrow> int \<Rightarrow> 'f list \<Rightarrow> 'f video" where
  "written r w h fr = \<lparr>fps = r, width = w, height = h, frames = fr, audio = False\<rparr>"

subsection \<open>Python helpers\<close>

text \<open>\<open>int(x)\<close> on a float truncates toward zero.\<close>

definition py_int :: "real \<Rightarrow> int" where
  "py_int x = (if 0 \<le> x then \<lfloor>x\<rfloor> else \<lceil>x\<rceil>)"

text \<open>
  \<open>round(x, 2)\<close>: the nearest multiple of 0.01, a tie going to the even one. Python
  returns the double nearest to that decimal; the model keeps the decimal.
\<close>

definition round_half_even :: "real \<Rightarrow> int" where
  "round_half_even x =
     (let f = \<lfloor>x\<rfloor>; d = x - of_int f
      in if d < 1 / 2 then f else if 1 / 2 < d then f + 1
         else if even f then f else f + 1)"

definition round2 :: "real \<Rightarrow> real" where
  "round2 x = of_int (round_half_even (x * 100)) / 100"

text \<open>The format \<open>{i:03d}\<close>: the decimal digits of \<open>i\<close>, padded with zeros to three.\<close>

definition digit :: "nat \<Rightarrow> char" where
  "digit d = char_of (48 + d)"

fun dec :: "nat \<Rightarrow> string" where
  "dec n = (if n < 10 then [digit n] else dec (n div 10) @ [digit (n mod 10)])"

declare dec.simps [simp del]

definition fmt03 :: "nat \<Rightarrow> string" where
  "fmt03 n = replicate (3 - length (dec n)) (CHR ''0'') @ dec n"

text \<open>\<open>os.path.join(a, b)\<close> on POSIX.\<close>

definition path_join :: "string \<Rightarrow> string \<Rightarrow> string" where
  "path_join a b =
     (if b \<noteq> [] \<and> hd b = CHR ''/'' then b
      else if a = [] \<or> last a = CHR ''/'' then a @ b
      else a @ ''/'' @ b)"

text \<open>\<open>pat in s\<close> on strings.\<close>

fun contains :: "string \<Rightarrow> string \<Rightarrow> bool" where
  "contains pat [] = (pat = [])"
| "contains pat (c # cs) = (prefix pat (c # cs) \<or> contains pat cs)"

subsection \<open>The filter catalog\<close>

text \<open>
  \<open>FILTERS\<close> maps nine names to pixel transforms. The transforms are calls into
  \<open>cv2\<close> and \<open>numpy\<close>; the parameter \<open>tr\<close> gives the transform of each name.
\<close>

definition filter_keys :: "string list" where
  "filter_keys = [''grayscale'', ''blur'', ''sepia'', ''brightness'', ''contrast'',
                  ''saturation'', ''warm_tone'', ''cool_tone'', ''edge_detection'']"

definition FILTERS :: "(string \<Rightarrow> 'f \<Rightarrow> 'f) \<Rightarrow> string \<rightharpoonup> ('f \<Rightarrow> 'f)" where
  "FILTERS tr k = (if k \<in> set filter_keys then Some (tr k) else None)"

definition get_filter_function :: "(string \<Rightarrow> 'f \<Rightarrow> 'f) \<Rightarrow> string \<Rightarrow> 'f \<Rightarrow> 'f" where
  "get_filter_function tr k = (case FILTERS tr k of None \<Rightarrow> (\<lambda>x. x) | Some g \<Rightarrow> g)"

subsection \<open>VideoProcessor\<close>

record processor =
  video_path :: string
  segment_duration :: real
  segments_dir :: string
  output_dir :: string

definition VideoProcessor :: "string \<Rightarrow> processor" where
  "VideoProcessor p =
     \<lparr>video_path = p, segment_duration = 10, segments_dir = ''segments'',
      output_dir = ''outputs''\<rparr>"

subsection \<open>split_video\<close>

definition segment_name :: "processor \<Rightarrow> nat \<Rightarrow> string" where
  "segment_name pr i = path_join (segments_dir pr) (''segment_'' @ fmt03 i @ ''.mp4'')"

text \<open>
  The writers that \<open>split_video\<close> has created so far, oldest first, each with its path
  and the frames written to it. The variable \<open>out\<close> is the last one, or \<open>None\<close> when
  the list is empty; \<open>out.write(frame)\<close> on \<open>None\<close> raises.
\<close>

definition write_frame :: "(string \<times> 'f list) list \<Rightarrow> 'f \<Rightarrow> (string \<times> 'f list) list option" where
  "write_frame ws f =
     (if ws = [] then None
      else Some (butlast ws @ [(fst (last ws), snd (last ws) @ [f])]))"

text \<open>
  The \<open>while\<close> loop of \<open>split_video\<close> over the frames that \<open>cap.read()\<close> yields, with
  \<open>current_segment\<close>, \<open>frame_count\<close> and the writers as its state. \<open>mod\<close> on
  \<open>int\<close> is Python's \<open>%\<close>.
\<close>

fun split_loop ::
  "processor \<Rightarrow> int \<Rightarrow> 'f list \<Rightarrow> nat \<Rightarrow> int \<Rightarrow> (string \<times> 'f list) list
     \<Rightarrow> exn + (string \<times> 'f list) list" where
  "split_loop pr L [] cur cnt ws = Inr ws"
| "split_loop pr L (f # rest) cur cnt ws =
     (let new = (cnt mod L = 0);
          ws1 = (if new then ws @ [(segment_name pr cur, [])] else ws);
          cur1 = (if new then cur + 1 else cur)
      in (case write_frame ws1 f of
           None \<Rightarrow>
             Inl (AttributeError
               ([CHR 0x27] @ ''NoneType'' @ [CHR 0x27] @ '' object has no attribute ''
                @ [CHR 0x27] @ ''write'' @ [CHR 0x27]))
         | Some ws2 \<Rightarrow> split_loop pr L rest cur1 (cnt + 1) ws2))"

text \<open>Releasing the writers leaves one file for each, in the order of creation.\<close>

definition release_writers ::
  "real \<Rightarrow> int \<Rightarrow> int \<Rightarrow> (string \<times> 'f list) list \<Rightarrow> 'f files \<Rightarrow> 'f files" where
  "release_writers r w h ws fs = fold (\<lambda>(p, fr) m. m(p \<mapsto> written r w h fr)) ws fs"

text \<open>
  \<open>split_video\<close>. The frame count that the container reports enters only
  \<open>duration\<close> and \<open>segment_count\<close>, which are printed; of the two divisions what
  remains is that they raise on a zero frame rate and on zero frames per segment. The
  frames per segment are the double product \<open>fps * segment_duration\<close>, truncated.
  Every segment writer is created under \<open>avc1\<close> alone, with the frame rate and the
  size of the source; the paths are returned whether or not the writers opened.
\<close>

definition split_video ::
  "host \<Rightarrow> processor \<Rightarrow> 'f files \<Rightarrow> exn + (string list \<times> 'f files)" where
  "split_video hst pr fs =
     (if \<not> isOpened fs (video_path pr) then Inl (Exception ''Could not open video file'')
      else
        let r = cap_fps fs (video_path pr);
            w = cap_width fs (video_path pr);
            h = cap_height fs (video_path pr)
        in if r = 0 then Inl (ZeroDivisionError ''float division by zero'')
           else
             let frames_per_segment = py_int (to_double hst (r * segment_duration pr))
             in if frames_per_segment = 0 then Inl (ZeroDivisionError ''division by zero'')
                else
                  (case split_loop pr frames_per_segment
                          (cap_frames fs (video_path pr)) 0 0 [] of
                     Inl e \<Rightarrow> Inl e
                   | Inr ws \<Rightarrow>
                       Inr (map fst ws,
                            if writer_opens (avc1 hst) r w h
                            then release_writers r w h ws fs else fs)))"

subsection \<open>The worker and process_parallel\<close>

text \<open>The frame loop of a worker: read a frame, apply the filter, write it.\<close>

fun filter_frames :: "('f \<Rightarrow> 'f) \<Rightarrow> 'f list \<Rightarrow> 'f list \<Rightarrow> 'f list" where
  "filter_frames g [] out = out"
| "filter_frames g (x # xs) out = filter_frames g xs (out @ [g x])"

text \<open>
  \<open>apply_filter_to_segment\<close> on its argument tuple (segment path, filter name, output
  path, segment index): it writes the filtered segment, under \<open>avc1\<close> or else under
  \<open>mp4v\<close>, with the frame rate and the size read from the segment, and returns the
  output path. On a segment that cannot be read these are 0, no writer opens, and no
  file is written.
\<close>

definition apply_filter_to_segment ::
  "host \<Rightarrow> (string \<Rightarrow> 'f \<Rightarrow> 'f) \<Rightarrow> string \<times> string \<times> string \<times> nat \<Rightarrow> 'f files
     \<Rightarrow> string \<times> 'f files" where
  "apply_filter_to_segment hst tr args fs =
     (case args of (segment_path, ftype, out_path, segment_index) \<Rightarrow>
        let r = cap_fps fs segment_path;
            w = cap_width fs segment_path;
            h = cap_height fs segment_path;
            opened = (writer_opens (avc1 hst) r w h \<or> writer_opens (mp4v hst) r w h);
            out = filter_frames (get_filter_function tr ftype) (cap_frames fs segment_path) []
        in (out_path, if opened then fs(out_path \<mapsto> written r w h out) else fs))"

text \<open>
  \<open>Pool.map\<close>: the workers finish in some order, given as the list \<open>order\<close> of
  argument positions; each result is kept with its position, and the list returned holds
  the results by position.
\<close>

fun run_workers ::
  "('a \<Rightarrow> 'f files \<Rightarrow> 'b \<times> 'f files) \<Rightarrow> 'a list \<Rightarrow> nat list \<Rightarrow> 'f files
     \<Rightarrow> (nat \<times> 'b) list \<times> 'f files" where
  "run_workers w args [] fs = ([], fs)"
| "run_workers w args (i # order) fs =
     (case w (args ! i) fs of (r, fs1) \<Rightarrow>
        (case run_workers w args order fs1 of (rs, fs2) \<Rightarrow> ((i, r) # rs, fs2)))"

definition pool_map ::
  "('a \<Rightarrow> 'f files \<Rightarrow> 'b \<times> 'f files) \<Rightarrow> 'a list \<Rightarrow> nat list \<Rightarrow> 'f files
     \<Rightarrow> 'b list \<times> 'f files" where
  "pool_map w args order fs =
     (case run_workers w args order fs of (rs, fs') \<Rightarrow>
        (map (\<lambda>i. the (map_of rs i)) [0..<length args], fs'))"

definition par_name :: "processor \<Rightarrow> nat \<Rightarrow> string" where
  "par_name pr i = path_join (output_dir pr) (''par_processed_'' @ fmt03 i @ ''.mp4'')"

definition args_list ::
  "processor \<Rightarrow> string list \<Rightarrow> string \<Rightarrow> (string \<times> string \<times> string \<times> nat) list" where
  "args_list pr segment_paths ftype =
     map (\<lambda>(i, segment_path). (segment_path, ftype, par_name pr i, i + 1))
       (enumerate 0 segment_paths)"

text \<open>
  \<open>process_parallel\<close>, with the order in which the workers finish and the time that the
  clock measures as inputs.
\<close>

definition process_parallel ::
  "host \<Rightarrow> processor \<Rightarrow> (string \<Rightarrow> 'f \<Rightarrow> 'f) \<Rightarrow> nat list \<Rightarrow> real \<Rightarrow> string list
     \<Rightarrow> string \<Rightarrow> 'f files \<Rightarrow> (string list \<times> real) \<times> 'f files" where
  "process_parallel hst pr tr order elapsed segment_paths ftype fs =
     (case pool_map (apply_filter_to_segment hst tr) (args_list pr segment_paths ftype)
             order fs of
        (processed_paths, fs') \<Rightarrow> ((processed_paths, elapsed), fs'))"

subsection \<open>merge_segments\<close>

text \<open>The inner loop of the merge: every frame read from a segment is written.\<close>

fun copy_frames :: "'f list \<Rightarrow> 'f list \<Rightarrow> 'f list" where
  "copy_frames [] out = out"
| "copy_frames (x # xs) out = copy_frames xs (out @ [x])"

fun merge_loop :: "'f files \<Rightarrow> string list \<Rightarrow> 'f list \<Rightarrow> 'f list" where
  "merge_loop fs [] out = out"
| "merge_loop fs (p # ps) out = merge_loop fs ps (copy_frames (cap_frames fs p) out)"

text \<open>
  \<open>merge_segments\<close> raises on an empty list only. No capture is checked with
  \<open>isOpened\<close>: a segment that cannot be read contributes no frame. The writer is
  created under \<open>avc1\<close> or else under \<open>mp4v\<close>, with the frame rate and the size
  read from the first segment; when that segment cannot be read these are 0, no writer
  opens, every frame is dropped and no file is written.
\<close>

definition merge_segments ::
  "host \<Rightarrow> string list \<Rightarrow> string \<Rightarrow> 'f files \<Rightarrow> exn + 'f files" where
  "merge_segments hst segment_paths out_path fs =
     (if segment_paths = [] then Inl (Exception ''No segments to merge'')
      else
        let r = cap_fps fs (hd segment_paths);
            w = cap_width fs (hd segment_paths);
            h = cap_height fs (hd segment_paths);
            opened = (writer_opens (avc1 hst) r w h \<or> writer_opens (mp4v hst) r w h);
            out = merge_loop fs segment_paths []
        in Inr (if opened then fs(out_path \<mapsto> written r w h out) else fs))"

subsection \<open>Audio: extract_audio and merge_audio_with_video\<close>

text \<open>
  What a \<open>subprocess.run\<close> with \<open>check=True\<close> does: it returns, it raises
  \<open>CalledProcessError\<close> on a non-zero exit, or it raises \<open>FileNotFoundError\<close> when the
  tool is not installed. The probe runs without \<open>check\<close> and yields its standard output.
\<close>

datatype tool_run = Exit0 | NonZeroExit | ToolNotFound

datatype probe_run = ProbeOutput string | ProbeNotFound

definition extract_audio :: "probe_run \<Rightarrow> tool_run \<Rightarrow> bool" where
  "extract_audio pb ex =
     (case pb of
        ProbeNotFound \<Rightarrow> False
      | ProbeOutput stdout \<Rightarrow>
          if \<not> contains ''audio'' stdout then False
          else (case ex of Exit0 \<Rightarrow> True | NonZeroExit \<Rightarrow> False | ToolNotFound \<Rightarrow> False))"

text \<open>
  \<open>merge_audio_with_video\<close> returns whether the remux succeeded. On success the file at
  the output path is the video with the audio track; on either failure no file changes.
\<close>

definition merge_audio_with_video ::
  "tool_run \<Rightarrow> string \<Rightarrow> string \<Rightarrow> string \<Rightarrow> 'f files \<Rightarrow> bool \<times> 'f files" where
  "merge_audio_with_video run vpath audio_path opath fs =
     (case run of
        Exit0 \<Rightarrow>
          (True, (case fs vpath of None \<Rightarrow> fs | Some v \<Rightarrow> fs(opath \<mapsto> v\<lparr>audio := True\<rparr>)))
      | NonZeroExit \<Rightarrow> (False, fs)
      | ToolNotFound \<Rightarrow> (False, fs))"

subsection \<open>cleanup_segments\<close>

text \<open>
  \<open>cleanup_segments\<close> removes the segments directory with all it holds, and the files
  directly in the output directory whose names start with \<open>seq_\<close> or \<open>par_\<close>.
\<close>

definition temp_output :: "processor \<Rightarrow> string \<Rightarrow> bool" where
  "temp_output pr p =
     (let d = path_join (output_dir pr) []
      in prefix d p \<and>
         (let name = drop (length d) p
          in CHR ''/'' \<notin> set name \<and> (prefix ''seq_'' name \<or> prefix ''par_'' name)))"

definition cleanup_segments :: "processor \<Rightarrow> 'f files \<Rightarrow> 'f files" where
  "cleanup_segments pr fs =
     (\<lambda>p. if prefix (path_join (segments_dir pr) []) p \<or> temp_output pr p then None
          else fs p)"

subsection \<open>The estimate of the sequential time (steps 5 and 6 of process_video)\<close>

text \<open>
  The two expressions of lines 606 and 609. \<open>process_video\<close> computes them on
  floats: it rounds the product and the quotient to a double.
\<close>

definition estimated_seq_time :: "real \<Rightarrow> nat \<Rightarrow> nat \<Rightarrow> real" where
  "estimated_seq_time ptime cores n = ptime * real (min cores n)"

definition speedup_ratio :: "real \<Rightarrow> real \<Rightarrow> real" where
  "speedup_ratio est ptime = (if ptime > 0 then est / ptime else 1)"

subsection \<open>process_video\<close>

text \<open>
  What one run of \<open>process_video\<close> takes from outside the program: the outcomes of the
  three tool runs, whether the extracted audio file exists at step 4, the order in which
  the workers finish, the time that \<open>process_parallel\<close> measures and \<open>cpu_count()\<close>.
\<close>

record env =
  ffprobe_run :: probe_run
  ffmpeg_extract :: tool_run
  audio_file_exists :: bool
  ffmpeg_remux :: tool_run
  completion :: "nat list"
  par_elapsed :: real
  cpu_count :: nat

text \<open>Python's \<open>str\<close> of a list of strings.\<close>

definition py_list_str :: "string list \<Rightarrow> string" where
  "py_list_str xs = ''['' @ join '', '' (map (\<lambda>k. [CHR 0x27] @ k @ [CHR 0x27]) xs) @ '']''"

text \<open>
  The body of the \<open>try\<close> in \<open>process_video\<close>, with the files as they are when it
  returns or raises. The value that \<open>merge_audio_with_video\<close> returns is not read, and
  \<open>audio_preserved\<close> is \<open>has_audio\<close>. The estimate is the double product and the
  speedup the double quotient; for a parallel time that is not positive the speedup is
  the constant 1.0, which no rounding changes.
\<close>

definition process_video_try ::
  "host \<Rightarrow> env \<Rightarrow> processor \<Rightarrow> (string \<Rightarrow> 'f \<Rightarrow> 'f) \<Rightarrow> string \<Rightarrow> string \<Rightarrow> 'f files
     \<Rightarrow> (exn + run_metrics) \<times> 'f files" where
  "process_video_try hst ev pr tr ftype output_filename fs =
     (if ftype \<notin> set filter_keys
      then (Inl (ValueError (''Unknown filter: '' @ ftype @ ''. Available: ''
                   @ py_list_str filter_keys)), fs)
      else
        let audio_path = path_join (segments_dir pr) ''original_audio.aac'';
            has_audio = extract_audio (ffprobe_run ev) (ffmpeg_extract ev)
        in (case split_video hst pr fs of
             Inl e \<Rightarrow> (Inl e, fs)
           | Inr (segment_paths, fs1) \<Rightarrow>
               (case process_parallel hst pr tr (completion ev) (par_elapsed ev)
                       segment_paths ftype fs1 of
                  ((par_paths, par_time), fs2) \<Rightarrow>
                    let out_path = path_join (output_dir pr) output_filename
                    in (case merge_segments hst par_paths out_path fs2 of
                         Inl e \<Rightarrow> (Inl e, fs2)
                       | Inr fs3 \<Rightarrow>
                          (let fs4 =
                                 (if has_audio \<and> audio_file_exists ev
                                  then snd (merge_audio_with_video (ffmpeg_remux ev)
                                              out_path audio_path out_path fs3)
                                  else fs3);
                               num_cores = cpu_count ev;
                               est = to_double hst
                                       (estimated_seq_time par_time num_cores
                                          (length segment_paths));
                               sp = (if par_time > 0
                                     then to_double hst (speedup_ratio est par_time)
                                     else speedup_ratio est par_time)
                           in (Inr \<lparr>output_path = out_path,
                                    sequential_time = round2 est,
                                    parallel_time = round2 par_time,
                                    speedup = round2 sp,
                                    segments_processed = length segment_paths,
                                    cpu_cores_used = num_cores,
                                    audio_preserved = has_audio\<rparr>,
                               cleanup_segments pr fs4))))))"

text \<open>\<open>except Exception\<close>: the result dict of a failed run.\<close>

definition process_video ::
  "host \<Rightarrow> env \<Rightarrow> processor \<Rightarrow> (string \<Rightarrow> 'f \<Rightarrow> 'f) \<Rightarrow> string \<Rightarrow> string \<Rightarrow> 'f files
     \<Rightarrow> result \<times> 'f files" where
  "process_video hst ev pr tr ftype output_filename fs =
     (case process_video_try hst ev pr tr ftype output_filename fs of
        (Inl e, fs') \<Rightarrow> (Failure (Some (str_of e)), fs')
      | (Inr m, fs') \<Rightarrow> (Success m, fs'))"

text \<open>
  \<open>process_video_task\<close> of main.py, the function that the executor runs. The first
  argument is the exception, if any, that constructing the \<open>VideoProcessor\<close> raises.
\<close>

definition process_video_task ::
  "host \<Rightarrow> exn option \<Rightarrow> env \<Rightarrow> (string \<Rightarrow> 'f \<Rightarrow> 'f) \<Rightarrow> string \<Rightarrow> string \<Rightarrow> string
     \<Rightarrow> 'f files \<Rightarrow> result \<times> 'f files" where
  "process_video_task hst init_error ev tr jid vpath ftype fs =
     (case init_error of
        Some e \<Rightarrow> (Failure (Some (str_of e)), fs)
      | None \<Rightarrow>
          process_video hst ev (VideoProcessor vpath) tr ftype (jid @ ''_processed.mp4'') fs)"

subsection \<open>The invariant of the split loop\<close>

text \<open>
  What holds of the writers of \<open>split_video\<close> before and after every frame, for
  \<open>n\<close> frames per segment: the paths are the segment names in order, every writer
  but the last holds \<open>n\<close> frames, and the last holds between one and \<open>n\<close>.
  \<open>written_count\<close> is the number of frames written so far, the loop's \<open>frame_count\<close>.
\<close>

definition writers_ok :: "processor \<Rightarrow> nat \<Rightarrow> (string \<times> 'f list) list \<Rightarrow> bool" where
  "writers_ok pr n ws \<longleftrightarrow>
     map fst ws = map (segment_name pr) [0..<length ws] \<and>
     (\<forall>w \<in> set (butlast ws). length (snd w) = n) \<and>
     (ws \<noteq> [] \<longrightarrow> 1 \<le> length (snd (last ws)) \<and> length (snd (last ws)) \<le> n)"

definition written_count :: "(string \<times> 'f list) list \<Rightarrow> nat" where
  "written_count ws = length (concat (map snd ws))"

section \<open>Properties of the job table\<close>

subsection \<open>Rejected requests leave the state as it is\<close>

lemma start_processing_unknown_job:
  "jobs s jid = None \<Longrightarrow>
     start_processing jid ftype s = (Inl (HTTPException 404 ''Job not found''), s)"
  by (simp add: start_processing_def)

text \<open>
  C7. A process request for an existing job that names a filter outside the list of nine
  is answered with status 400, and the whole state is returned as it was: the job record
  (so its status and its unset filter name), the saved file and the background runs.
\<close>

theorem start_processing_unknown_filter:
  assumes "jobs s jid = Some job" and "ftype \<notin> set valid_filters"
  shows "start_processing jid ftype s =
           (Inl (HTTPException 400
              (''Invalid filter type. Use one of: '' @ join '', '' valid_filters)), s)"
  using assms by (simp add: start_processing_def)

theorem start_processing_unknown_filter_witness:
  "start_processing ''j1'' ''invert''
      \<lparr>jobs = [''j1'' \<mapsto> new_job ''j1'' ''clip.mp4'' None], jobs_file = Missing, tasks = []\<rparr>
   = (Inl (HTTPException 400
        (''Invalid filter type. Use one of: '' @ join '', '' valid_filters)),
      \<lparr>jobs = [''j1'' \<mapsto> new_job ''j1'' ''clip.mp4'' None], jobs_file = Missing, tasks = []\<rparr>)
    \<and> status (new_job ''j1'' ''clip.mp4'' None) = ''uploaded''
    \<and> filter_type (new_job ''j1'' ''clip.mp4'' None) = None"
  using start_processing_unknown_filter
    [of "\<lparr>jobs = [''j1'' \<mapsto> new_job ''j1'' ''clip.mp4'' None], jobs_file = Missing, tasks = []\<rparr>"
        "''j1''" "new_job ''j1'' ''clip.mp4'' None" "''invert''"]
  by (simp add: valid_filters_def new_job_def)

subsection \<open>The status of a job is not a guard of /process\<close>

text \<open>
  C1, as stated, fails: a process request on a job whose status is \<open>completed\<close> is
  acknowledged, and the job's status becomes \<open>processing\<close>.
\<close>

theorem start_processing_completed_counterexample:
  "fst (start_processing ''j1'' ''blur''
      \<lparr>jobs = [''j1'' \<mapsto> (new_job ''j1'' ''clip.mp4'' None)\<lparr>status := ''completed''\<rparr>],
       jobs_file = Missing, tasks = []\<rparr>)
     = Inr \<lparr>message = ''Processing started'', ack_job_id = ''j1'', ack_filter_type = ''blur''\<rparr>
   \<and> map_option status (jobs (snd (start_processing ''j1'' ''blur''
      \<lparr>jobs = [''j1'' \<mapsto> (new_job ''j1'' ''clip.mp4'' None)\<lparr>status := ''completed''\<rparr>],
       jobs_file = Missing, tasks = []\<rparr>)) ''j1'') = Some ''processing''"
  by (simp add: start_processing_def valid_filters_def save_jobs_def new_job_def Let_def)

text \<open>
  C1, amended. A process request on an existing job with a filter of the list is accepted
  whatever the job's status is: the job's status becomes \<open>processing\<close>, the filter name
  is recorded, the table is saved and one background run is created for the job.
\<close>

theorem start_processing_accepts_any_status:
  assumes "jobs s jid = Some job" and "ftype \<in> set valid_filters"
  shows "start_processing jid ftype s =
           (Inr \<lparr>message = ''Processing started'', ack_job_id = jid, ack_filter_type = ftype\<rparr>,
            s\<lparr>jobs := (jobs s)(jid \<mapsto> job\<lparr>status := ''processing'', filter_type := Some ftype\<rparr>),
              jobs_file := Stored ((jobs s)(jid \<mapsto>
                             job\<lparr>status := ''processing'', filter_type := Some ftype\<rparr>)),
              tasks := tasks s @ [(jid, file_path job, ftype)]\<rparr>)"
  using assms by (simp add: start_processing_def save_jobs_def Let_def)

theorem start_processing_accepts_any_status_witness:
  "tasks (snd (start_processing ''j1'' ''sepia''
      \<lparr>jobs = [''j1'' \<mapsto> (new_job ''j1'' ''clip.mp4'' None)\<lparr>status := ''failed''\<rparr>],
       jobs_file = Missing, tasks = []\<rparr>))
     = [(''j1'', ''uploads/j1_clip.mp4'', ''sepia'')]
   \<and> map_option status (jobs (snd (start_processing ''j1'' ''sepia''
      \<lparr>jobs = [''j1'' \<mapsto> (new_job ''j1'' ''clip.mp4'' None)\<lparr>status := ''failed''\<rparr>],
       jobs_file = Missing, tasks = []\<rparr>)) ''j1'') = Some ''processing''"
  using start_processing_accepts_any_status
    [of "\<lparr>jobs = [''j1'' \<mapsto> (new_job ''j1'' ''clip.mp4'' None)\<lparr>status := ''failed''\<rparr>],
          jobs_file = Missing, tasks = []\<rparr>"
        "''j1''" "(new_job ''j1'' ''clip.mp4'' None)\<lparr>status := ''failed''\<rparr>" "''sepia''"]
  by (simp add: valid_filters_def new_job_def)

subsection \<open>Loading the table at startup\<close>

text \<open>
  C9. When \<open>jobs.json\<close> is missing, or cannot be opened or parsed, the module starts
  with an empty job table, and \<open>load_jobs\<close> raises nothing.
\<close>

theorem load_jobs_missing_or_corrupt:
  assumes "f = Missing \<or> f = Unparseable m"
  shows "startup f = Inr \<lparr>jobs = Map.empty, jobs_file = f, tasks = []\<rparr>"
  using assms by (auto simp: startup_def load_jobs_def load_jobs_try_def)

theorem load_jobs_missing_or_corrupt_witness:
  "startup (Unparseable ''Expecting value: line 1 column 1 (char 0)'')
     = Inr \<lparr>jobs = Map.empty,
            jobs_file = Unparseable ''Expecting value: line 1 column 1 (char 0)'',
            tasks = []\<rparr>"
  using load_jobs_missing_or_corrupt
    [of "Unparseable ''Expecting value: line 1 column 1 (char 0)''"
        "''Expecting value: line 1 column 1 (char 0)''"]
  by simp

subsection \<open>The end of a background run\<close>

text \<open>
  While the job is in the table, every outcome of the run is recorded and nothing is
  raised: a failed result and an exception of the executor both set the status
  \<open>failed\<close> with a message.
\<close>

lemma process_in_background_failure_recorded:
  assumes "jobs s jid = Some job"
  shows "process_in_background jid (Inr (Failure (Some m))) s =
           Inr (save_jobs (s\<lparr>jobs := (jobs s)(jid \<mapsto>
                  job\<lparr>status := ''failed'', error := Some m\<rparr>)\<rparr>))"
    and "process_in_background jid (Inl e) s =
           Inr (save_jobs (s\<lparr>jobs := (jobs s)(jid \<mapsto>
                  job\<lparr>status := ''failed'', error := Some (str_of e)\<rparr>)\<rparr>))"
  using assms by (simp_all add: process_in_background_def mark_failed_def)

lemma process_in_background_deleted:
  "jobs s jid = None \<Longrightarrow> process_in_background jid outcome s = Inl (KeyError jid)"
  by (cases outcome) (simp_all add: process_in_background_def mark_failed_def)

text \<open>
  C6 at the failing input. A job is uploaded, \<open>/process\<close> starts its run,
  \<open>/cleanup\<close> deletes the record while the run is in flight, and the run then ends
  (here with a failed result): \<open>jobs[job_id]\<close> raises \<open>KeyError\<close> in the \<open>try\<close>, the
  \<open>except\<close> block indexes \<open>jobs[job_id]\<close> again, and that \<open>KeyError\<close> leaves
  \<open>process_in_background\<close>.
\<close>

theorem process_in_background_deleted_job_raises:
  "process_in_background ''j1'' (Inr (Failure (Some ''Could not open video file'')))
     (snd (cleanup_job ''j1''
        (snd (start_processing ''j1'' ''blur''
           \<lparr>jobs = [''j1'' \<mapsto> new_job ''j1'' ''clip.mp4'' None],
            jobs_file = Missing, tasks = []\<rparr>))))
     = Inl (KeyError ''j1'')"
  by (simp add: process_in_background_def mark_failed_def cleanup_job_def
      start_processing_def valid_filters_def save_jobs_def Let_def)

section \<open>Properties of the pipeline\<close>

text \<open>
  The definitions that evaluate a run of the pipeline on concrete files. The closed
  statements below take a host that encodes the codec they need, and inputs at which
  every product and quotient is a double already, so that rounding leaves it as it is.
\<close>

lemma fmt03_values:
  "fmt03 0 = ''000''" "fmt03 1 = ''001''" "fmt03 (Suc 0) = ''001''"
  "fmt03 2 = ''002''" "fmt03 (Suc (Suc 0)) = ''002''"
  by code_simp+

lemmas eval_defs =
  process_video_def process_video_try_def filter_keys_def extract_audio_def
  split_video_def VideoProcessor_def isOpened_def cap_fps_def cap_width_def cap_height_def
  cap_frames_def py_int_def segment_name_def path_join_def write_frame_def Let_def
  fmt03_values process_parallel_def pool_map_def args_list_def enumerate_eq_zip par_name_def
  apply_filter_to_segment_def merge_segments_def merge_audio_with_video_def
  estimated_seq_time_def speedup_ratio_def round2_def round_half_even_def
  release_writers_def written_def get_filter_function_def FILTERS_def
  cleanup_segments_def temp_output_def writer_opens_def

subsection \<open>The estimate and the reported metrics\<close>

lemma round2_of_nat: "round2 (real n) = real n"
  by (simp add: round2_def round_half_even_def Let_def)



text \<open>
  Rounding to two decimals gives the whole number \<open>n\<close> for every value within 0.005
  of it, and the double quotient of the double product \<open>P * k\<close> by \<open>P\<close> is that
  close to \<open>k\<close>.
\<close>

lemma round_half_even_near:
  assumes "\<bar>y - of_int N\<bar> < 1 / 2"
  shows "round_half_even y = N"
proof (cases "of_int N \<le> y")
  case True
  with assms have "\<lfloor>y\<rfloor> = N" by (intro floor_unique) linarith+
  with assms True show ?thesis by (simp add: round_half_even_def Let_def)
next
  case False
  have b: "of_int N - 1 \<le> y" "y < of_int N" using assms False by linarith+
  then have f: "\<lfloor>y\<rfloor> = N - 1" by (intro floor_unique) simp_all
  have "1 / 2 < y - of_int (N - 1)" using assms b by simp
  with f show ?thesis by (simp add: round_half_even_def Let_def)
qed

lemma round2_near:
  assumes "\<bar>x - real n\<bar> < 1 / 200"
  shows "round2 x = real n"
proof -
  have "\<bar>x * 100 - real n * 100\<bar> < 1 / 2" using assms by linarith
  then have "\<bar>x * 100 - of_int (int (n * 100))\<bar> < 1 / 2" by simp
  then have "round_half_even (x * 100) = int (n * 100)" by (rule round_half_even_near)
  then show ?thesis by (simp add: round2_def)
qed

lemma double_quotient_near:
  fixes P k :: real
  assumes P: "0 < P" and k0: "0 \<le> k" and kb: "k \<le> 2 ^ 32"
      and a1: "double_accurate fl (P * k)"
      and a2: "double_accurate fl (fl (P * k) / P)"
  shows "\<bar>fl (fl (P * k) / P) - k\<bar> < 1 / 200"
proof -
  define u :: real where "u = 1 / 2 ^ 53"
  define a where "a = fl (P * k)"
  define y where "y = a / P"
  have u: "0 \<le> u" by (simp add: u_def)
  have "\<bar>P * k\<bar> = P * k" using P k0 by simp
  with a1 have 1: "\<bar>a - P * k\<bar> \<le> P * k * u"
    by (simp add: double_accurate_def a_def u_def)
  have "y - k = (a - P * k) / P" using P by (simp add: y_def field_simps)
  then have "\<bar>y - k\<bar> = \<bar>a - P * k\<bar> / P" using P by (simp add: abs_divide)
  also have "\<dots> \<le> (P * k * u) / P" using 1 P by (intro divide_right_mono) simp_all
  also have "\<dots> = k * u" using P by simp
  finally have 2: "\<bar>y - k\<bar> \<le> k * u" .
  then have 3: "\<bar>y\<bar> \<le> k + k * u" using k0 by linarith
  have "\<bar>fl y - y\<bar> \<le> \<bar>y\<bar> * u"
    using a2 by (simp add: double_accurate_def y_def a_def u_def)
  also have "\<dots> \<le> (k + k * u) * u" using 3 u by (rule mult_right_mono)
  finally have 4: "\<bar>fl y - y\<bar> \<le> (k + k * u) * u" .
  have "\<bar>fl y - k\<bar> \<le> k * u + (k + k * u) * u" using 2 4 by linarith
  also have "\<dots> = k * (2 * u + u * u)" by (simp add: algebra_simps)
  also have "\<dots> \<le> 2 ^ 32 * (2 * u + u * u)"
    using kb u by (intro mult_right_mono) simp_all
  also have "\<dots> < 1 / 200" by (simp add: u_def)
  finally show ?thesis by (simp add: y_def a_def)
qed

text \<open>
  What a successful run reports: the number of segments that \<open>split_video\<close> made (at
  least one: the merge raises on none), \<open>cpu_count()\<close>, the two rounded times, the
  rounded speedup, and \<open>audio_preserved\<close> as the extraction alone decided it.
\<close>

lemma process_video_success:
  assumes "process_video hst ev pr tr ftype fname fs = (Success m, fs')"
  shows "\<exists>paths fs1. split_video hst pr fs = Inr (paths, fs1) \<and> paths \<noteq> []
       \<and> segments_processed m = length paths
       \<and> cpu_cores_used m = cpu_count ev
       \<and> parallel_time m = round2 (par_elapsed ev)
       \<and> sequential_time m
            = round2 (to_double hst
                (estimated_seq_time (par_elapsed ev) (cpu_count ev) (length paths)))
       \<and> speedup m
            = round2 (if 0 < par_elapsed ev
                then to_double hst (speedup_ratio
                  (to_double hst
                     (estimated_seq_time (par_elapsed ev) (cpu_count ev) (length paths)))
                  (par_elapsed ev))
                else 1)
       \<and> audio_preserved m = extract_audio (ffprobe_run ev) (ffmpeg_extract ev)"
  using assms
  apply (simp add: process_video_def process_video_try_def process_parallel_def pool_map_def Let_def
      split: if_splits sum.splits prod.splits)
  apply (auto simp: merge_segments_def args_list_def speedup_ratio_def split: if_splits)
  done


text \<open>
  C10. Take a successful run with a measured parallel time \<open>P > 0\<close>, and let \<open>k\<close>
  be the minimum of \<open>cpu_count()\<close> and the number of segments that \<open>split_video\<close>
  made. The result reports that number of segments and that worker count, its speedup is
  exactly \<open>k\<close>, and its sequential time is the double product \<open>P * k\<close> rounded to
  two decimals: the speedup carries nothing of the measured time. The double product
  and the double quotient are taken to be accurate (no overflow, no underflow), and
  \<open>k\<close> to be at most \<open>2 ^ 32\<close>.
\<close>

theorem reported_speedup_is_min:
  assumes "process_video hst ev pr tr ftype fname fs = (Success m, fs')"
      and "0 < par_elapsed ev"
      and "min (cpu_count ev) (segments_processed m) \<le> 2 ^ 32"
      and "double_accurate (to_double hst)
             (par_elapsed ev * real (min (cpu_count ev) (segments_processed m)))"
      and "double_accurate (to_double hst)
             (to_double hst
                (par_elapsed ev * real (min (cpu_count ev) (segments_processed m)))
              / par_elapsed ev)"
  shows "\<exists>paths fs1. split_video hst pr fs = Inr (paths, fs1)
       \<and> segments_processed m = length paths
       \<and> cpu_cores_used m = cpu_count ev
       \<and> speedup m = real (min (cpu_count ev) (length paths))
       \<and> sequential_time m
            = round2 (to_double hst
                (par_elapsed ev * real (min (cpu_count ev) (length paths))))"
proof -
  from process_video_success [OF assms(1)] obtain paths fs1 where
    sv: "split_video hst pr fs = Inr (paths, fs1)" and
    n: "segments_processed m = length paths" and
    c: "cpu_cores_used m = cpu_count ev" and
    s: "sequential_time m
          = round2 (to_double hst
              (estimated_seq_time (par_elapsed ev) (cpu_count ev) (length paths)))" and
    r: "speedup m
          = round2 (if 0 < par_elapsed ev
              then to_double hst (speedup_ratio
                (to_double hst
                   (estimated_seq_time (par_elapsed ev) (cpu_count ev) (length paths)))
                (par_elapsed ev))
              else 1)"
    by auto
  let ?k = "min (cpu_count ev) (length paths)"
  let ?P = "par_elapsed ev"
  have kb: "real ?k \<le> 2 ^ 32"
  proof -
    from assms(3) have "real ?k \<le> real (2 ^ 32)"
      unfolding n by (simp only: of_nat_le_iff)
    then show ?thesis by simp
  qed
  have "\<bar>to_double hst (to_double hst (?P * real ?k) / ?P) - real ?k\<bar> < 1 / 200"
    using assms(2) _ kb assms(4,5) [unfolded n] by (rule double_quotient_near) simp
  then have "round2 (to_double hst (to_double hst (?P * real ?k) / ?P)) = real ?k"
    by (rule round2_near)
  with r assms(2) have sp: "speedup m = real ?k"
    by (simp add: speedup_ratio_def estimated_seq_time_def)
  from s have st: "sequential_time m = round2 (to_double hst (?P * real ?k))"
    by (simp add: estimated_seq_time_def)
  from sv n c sp st show ?thesis by blast
qed

theorem reported_speedup_is_min_witness:
  "fst (process_video \<lparr>to_double = \<lambda>x. x, avc1 = True, mp4v = True\<rparr>
      \<lparr>ffprobe_run = ProbeOutput ''video'', ffmpeg_extract = Exit0, audio_file_exists = False,
       ffmpeg_remux = Exit0, completion = [1, 0], par_elapsed = 5 / 2, cpu_count = 4\<rparr>
      (VideoProcessor ''uploads/j1_clip.mp4'') (\<lambda>_. Suc) ''blur'' ''j1_processed.mp4''
      [''uploads/j1_clip.mp4'' \<mapsto>
         \<lparr>fps = 1 / 4, width = 640, height = 360, frames = [10, 20, 30 :: nat], audio = False\<rparr>])
     = Success \<lparr>output_path = ''outputs/j1_processed.mp4'', sequential_time = 5,
         parallel_time = 5 / 2, speedup = 2, segments_processed = 2, cpu_cores_used = 4,
         audio_preserved = False\<rparr>
   \<and> round2 (5 / 2 * real (min 4 (2::nat))) = 5"
proof -
  let ?hst = "\<lparr>to_double = \<lambda>x. x, avc1 = True, mp4v = True\<rparr>"
  let ?ev = "\<lparr>ffprobe_run = ProbeOutput ''video'', ffmpeg_extract = Exit0,
       audio_file_exists = False, ffmpeg_remux = Exit0, completion = [1, 0],
       par_elapsed = 5 / 2, cpu_count = 4\<rparr>"
  let ?fs = "[''uploads/j1_clip.mp4'' \<mapsto>
         \<lparr>fps = 1 / 4, width = 640, height = 360, frames = [10, 20, 30 :: nat], audio = False\<rparr>]"
  let ?pr = "VideoProcessor ''uploads/j1_clip.mp4''"
  let ?run = "process_video ?hst ?ev ?pr (\<lambda>_. Suc) ''blur'' ''j1_processed.mp4'' ?fs"
  let ?m = "\<lparr>output_path = ''outputs/j1_processed.mp4'', sequential_time = 5,
         parallel_time = 5 / 2, speedup = 2, segments_processed = 2, cpu_cores_used = 4,
         audio_preserved = False\<rparr>"
  have run: "fst ?run = Success ?m"
    by (simp add: eval_defs)
  then have "?run = (Success ?m, snd ?run)"
    by (simp add: prod_eq_iff)
  from reported_speedup_is_min [OF this]
  have "\<exists>paths fs1. split_video ?hst ?pr ?fs = Inr (paths, fs1)
          \<and> segments_processed ?m = length paths
          \<and> sequential_time ?m = round2 (5 / 2 * real (min 4 (length paths)))"
    by (auto simp: double_accurate_def)
  then have "round2 (5 / 2 * real (min 4 (2::nat))) = 5"
    by auto
  with run show ?thesis by simp
qed

subsection \<open>A failed remux\<close>

text \<open>
  Whatever the remux does, a run that succeeds reports \<open>audio_preserved\<close> as the
  extraction decided it.
\<close>

lemma audio_preserved_ignores_remux:
  assumes "process_video hst ev pr tr ftype fname fs = (Success m, fs')"
  shows "audio_preserved m = extract_audio (ffprobe_run ev) (ffmpeg_extract ev)"
  using process_video_success [OF assms] by auto

text \<open>
  C5 at the failing input. The source has an audio track, the extraction succeeds and the
  remux exits non-zero. The run succeeds, the output file has no audio track, and the
  result still reports \<open>audio_preserved = True\<close>.
\<close>

theorem remux_failure_reported_as_preserved:
  "fst (process_video \<lparr>to_double = \<lambda>x. x, avc1 = True, mp4v = True\<rparr>
      \<lparr>ffprobe_run = ProbeOutput ''audio'', ffmpeg_extract = Exit0, audio_file_exists = True,
       ffmpeg_remux = NonZeroExit, completion = [0], par_elapsed = 5 / 2, cpu_count = 4\<rparr>
      (VideoProcessor ''uploads/j1_clip.mp4'') (\<lambda>_. Suc) ''grayscale'' ''j1_processed.mp4''
      [''uploads/j1_clip.mp4'' \<mapsto>
         \<lparr>fps = 30, width = 640, height = 360, frames = [10, 20, 30 :: nat], audio = True\<rparr>])
     = Success \<lparr>output_path = ''outputs/j1_processed.mp4'', sequential_time = 5 / 2,
         parallel_time = 5 / 2, speedup = 1, segments_processed = 1, cpu_cores_used = 4,
         audio_preserved = True\<rparr>
   \<and> snd (process_video \<lparr>to_double = \<lambda>x. x, avc1 = True, mp4v = True\<rparr>
      \<lparr>ffprobe_run = ProbeOutput ''audio'', ffmpeg_extract = Exit0, audio_file_exists = True,
       ffmpeg_remux = NonZeroExit, completion = [0], par_elapsed = 5 / 2, cpu_count = 4\<rparr>
      (VideoProcessor ''uploads/j1_clip.mp4'') (\<lambda>_. Suc) ''grayscale'' ''j1_processed.mp4''
      [''uploads/j1_clip.mp4'' \<mapsto>
         \<lparr>fps = 30, width = 640, height = 360, frames = [10, 20, 30 :: nat], audio = True\<rparr>])
      ''outputs/j1_processed.mp4''
     = Some \<lparr>fps = 30, width = 640, height = 360, frames = [11, 21, 31], audio = False\<rparr>"
  by (simp add: eval_defs)

subsection \<open>What the merge raises\<close>

lemma merge_segments_empty:
  "merge_segments hst [] out_path fs = Inl (Exception ''No segments to merge'')"
  by (simp add: merge_segments_def)

lemma merge_segments_nonempty_succeeds:
  "segment_paths \<noteq> [] \<Longrightarrow> \<exists>fs'. merge_segments hst segment_paths out_path fs = Inr fs'"
  by (simp add: merge_segments_def Let_def)

text \<open>
  The loops of the merge append: when the writer opens, the output holds the frames of
  every path, in order.
\<close>

lemma copy_frames_eq: "copy_frames xs out = out @ xs"
  by (induction xs arbitrary: out) simp_all

lemma merge_loop_eq: "merge_loop fs ps out = out @ concat (map (cap_frames fs) ps)"
  by (induction ps arbitrary: out) (simp_all add: copy_frames_eq)

lemma merge_segments_appends_all:
  assumes "segment_paths \<noteq> []"
      and "writer_opens (avc1 hst \<or> mp4v hst) (cap_fps fs (hd segment_paths))
             (cap_width fs (hd segment_paths)) (cap_height fs (hd segment_paths))"
  shows "merge_segments hst segment_paths out_path fs
       = Inr (fs(out_path \<mapsto>
           written (cap_fps fs (hd segment_paths)) (cap_width fs (hd segment_paths))
             (cap_height fs (hd segment_paths))
             (concat (map (cap_frames fs) segment_paths))))"
  using assms by (auto simp: merge_segments_def Let_def merge_loop_eq writer_opens_def)

text \<open>When no writer opens, the merge returns normally and no file is written.\<close>

lemma merge_segments_no_writer:
  assumes "segment_paths \<noteq> []"
      and "\<not> writer_opens (avc1 hst \<or> mp4v hst) (cap_fps fs (hd segment_paths))
             (cap_width fs (hd segment_paths)) (cap_height fs (hd segment_paths))"
  shows "merge_segments hst segment_paths out_path fs = Inr fs"
  using assms by (auto simp: merge_segments_def Let_def writer_opens_def)

text \<open>
  C8 at the failing input. Of three segment paths the second is no readable file. The
  merge raises nothing and writes an output that holds the frames of the first and the
  third segment only.
\<close>

theorem merge_segments_unreadable_segment_skipped:
  "map_sum id (\<lambda>fs'. fs' ''outputs/j1_processed.mp4'')
     (merge_segments \<lparr>to_double = \<lambda>x. x, avc1 = True, mp4v = True\<rparr>
        [''outputs/par_processed_000.mp4'', ''outputs/par_processed_001.mp4'',
         ''outputs/par_processed_002.mp4'']
        ''outputs/j1_processed.mp4''
        [''outputs/par_processed_000.mp4'' \<mapsto>
           \<lparr>fps = 30, width = 640, height = 360, frames = [1, 2 :: nat], audio = False\<rparr>,
         ''outputs/par_processed_002.mp4'' \<mapsto>
           \<lparr>fps = 30, width = 640, height = 360, frames = [5, 6], audio = False\<rparr>])
    = Inr (Some \<lparr>fps = 30, width = 640, height = 360, frames = [1, 2, 5, 6], audio = False\<rparr>)
   \<and> \<not> isOpened
        [''outputs/par_processed_000.mp4'' \<mapsto>
           \<lparr>fps = 30, width = 640, height = 360, frames = [1, 2 :: nat], audio = False\<rparr>,
         ''outputs/par_processed_002.mp4'' \<mapsto>
           \<lparr>fps = 30, width = 640, height = 360, frames = [5, 6], audio = False\<rparr>]
        ''outputs/par_processed_001.mp4''"
  by (simp add: merge_segments_def isOpened_def cap_fps_def cap_width_def cap_height_def
      cap_frames_def written_def writer_opens_def Let_def)

section \<open>Properties of the segmenter\<close>

subsection \<open>File names\<close>

text \<open>
  The three-digit format is injective (a string of digits is read back to its number), so
  two segments never share a file name, nor do two worker outputs.
\<close>

lemma digit_value: "d < 10 \<Longrightarrow> of_char (digit d) - 48 = d"
  by (simp add: digit_def)

lemma undec_dec: "foldl (\<lambda>a c. 10 * a + (of_char c - 48)) (0::nat) (dec n) = n"
proof (induction n rule: dec.induct)
  case (1 n)
  show ?case
  proof (cases "n < 10")
    case True
    then show ?thesis by (subst dec.simps) (simp add: digit_value)
  next
    case False
    with 1 show ?thesis by (subst dec.simps) (simp add: digit_value)
  qed
qed

lemma undec_zeros:
  "foldl (\<lambda>a c. 10 * a + (of_char c - 48)) (0::nat) (replicate k (CHR ''0'') @ s)
     = foldl (\<lambda>a c. 10 * a + (of_char c - 48)) 0 s"
  by (induction k) simp_all

lemma undec_fmt03: "foldl (\<lambda>a c. 10 * a + (of_char c - 48)) (0::nat) (fmt03 n) = n"
  unfolding fmt03_def by (simp only: undec_zeros undec_dec)

lemma fmt03_inj: "fmt03 i = fmt03 j \<Longrightarrow> i = j"
  by (metis undec_fmt03)

lemma path_join_inj:
  assumes "path_join a (c # b) = path_join a (c # b')" and "c \<noteq> CHR ''/''"
  shows "b = b'"
  using assms by (simp add: path_join_def split: if_splits)

lemma segment_name_inj: "segment_name pr i = segment_name pr j \<Longrightarrow> i = j"
  unfolding segment_name_def
  by (rule fmt03_inj) (use path_join_inj in fastforce)

lemma par_name_inj: "par_name pr i = par_name pr j \<Longrightarrow> i = j"
  unfolding par_name_def
  by (rule fmt03_inj) (use path_join_inj in fastforce)

subsection \<open>The split loop keeps its invariant\<close>

lemma sum_list_all_equal:
  "\<forall>x \<in> set xs. f x = (n::nat) \<Longrightarrow> sum_list (map f xs) = length xs * n"
  by (induction xs) simp_all

lemma written_count_snoc: "written_count (ws @ [w]) = written_count ws + length (snd w)"
  by (simp add: written_count_def)

lemma written_count_full:
  assumes "\<forall>w \<in> set ws. length (snd w) = n"
  shows "written_count ws = length ws * n"
  using sum_list_all_equal [of ws "\<lambda>w. length (snd w)" n] assms
  by (simp add: written_count_def length_concat comp_def)

lemma written_count_ok:
  assumes "writers_ok pr n ws" and "ws \<noteq> []"
  shows "written_count ws = (length ws - 1) * n + length (snd (last ws))"
proof -
  have "written_count ws = written_count (butlast ws @ [last ws])"
    using assms(2) by simp
  also have "\<dots> = written_count (butlast ws) + length (snd (last ws))"
    by (rule written_count_snoc)
  also have "written_count (butlast ws) = length (butlast ws) * n"
    using assms(1) by (intro written_count_full) (simp add: writers_ok_def)
  finally show ?thesis by simp
qed

lemma written_count_mod:
  assumes "writers_ok pr n ws" and "0 < n"
  shows "written_count ws mod n = 0 \<longleftrightarrow> ws = [] \<or> length (snd (last ws)) = n"
proof (cases "ws = []")
  case True
  then show ?thesis by (simp add: written_count_def)
next
  case False
  from written_count_ok [OF assms(1) False]
  have "written_count ws mod n = length (snd (last ws)) mod n" by simp
  moreover have "1 \<le> length (snd (last ws))" "length (snd (last ws)) \<le> n"
    using assms(1) False by (simp_all add: writers_ok_def)
  ultimately show ?thesis using False
    by (cases "length (snd (last ws)) = n") (simp, simp add: Suc_le_eq)
qed

lemma set_butlast_last: "ws \<noteq> [] \<Longrightarrow> set ws = insert (last ws) (set (butlast ws))"
  by (metis append_butlast_last_id list.simps(15) rotate1.simps(2) set_rotate1)

lemma writers_ok_new:
  assumes "writers_ok pr n ws" and "0 < n" and "ws = [] \<or> length (snd (last ws)) = n"
  shows "writers_ok pr n (ws @ [(segment_name pr (length ws), [f])])"
proof (cases "ws = []")
  case True
  then show ?thesis using assms(2) by (simp add: writers_ok_def)
next
  case False
  with assms(3) have "length (snd (last ws)) = n" by simp
  with assms(1) False have "\<forall>w \<in> set ws. length (snd w) = n"
    by (simp add: writers_ok_def set_butlast_last)
  with assms(1,2) show ?thesis
    by (simp add: writers_ok_def Suc_le_eq)
qed

lemma writers_ok_write:
  assumes "writers_ok pr n ws" and "ws \<noteq> []" and "length (snd (last ws)) \<noteq> n"
  shows "writers_ok pr n (butlast ws @ [(fst (last ws), snd (last ws) @ [f])])"
proof -
  have "map fst (butlast ws @ [(fst (last ws), snd (last ws) @ [f])]) = map fst (butlast ws @ [last ws])"
    by simp
  also have "\<dots> = map fst ws" using assms(2) by simp
  finally show ?thesis using assms by (auto simp: writers_ok_def)
qed


lemma int_mod_zero: "int c mod int n = 0 \<longleftrightarrow> c mod n = 0"
  by (metis of_nat_eq_0_iff of_nat_mod)

lemma written_count_write:
  "ws \<noteq> [] \<Longrightarrow>
     written_count (butlast ws @ [(fst (last ws), snd (last ws) @ [f])]) = written_count ws + 1"
proof -
  assume "ws \<noteq> []"
  then have "written_count ws = written_count (butlast ws @ [last ws])" by simp
  then show ?thesis by (simp only: written_count_snoc) simp
qed

lemma concat_write:
  "ws \<noteq> [] \<Longrightarrow>
     concat (map snd (butlast ws @ [(fst (last ws), snd (last ws) @ [f])]))
       = concat (map snd ws) @ [f]"
proof -
  assume "ws \<noteq> []"
  then have "concat (map snd ws) = concat (map snd (butlast ws @ [last ws]))" by simp
  then show ?thesis by simp
qed

lemma split_loop_ok:
  assumes "0 < n" and "writers_ok pr n ws"
  shows "\<exists>ws'. split_loop pr (int n) xs (length ws) (int (written_count ws)) ws = Inr ws'
           \<and> writers_ok pr n ws' \<and> concat (map snd ws') = concat (map snd ws) @ xs"
  using assms(2)
proof (induction xs arbitrary: ws)
  case Nil
  then show ?case by simp
next
  case (Cons f rest)
  show ?case
  proof (cases "written_count ws mod n = 0")
    case True
    let ?ws2 = "ws @ [(segment_name pr (length ws), [f])]"
    from True Cons.prems assms(1) have "ws = [] \<or> length (snd (last ws)) = n"
      by (simp add: written_count_mod)
    with Cons.prems assms(1) have ok: "writers_ok pr n ?ws2"
      by (rule writers_ok_new)
    have step: "split_loop pr (int n) (f # rest) (length ws) (int (written_count ws)) ws
                  = split_loop pr (int n) rest (length ?ws2) (int (written_count ?ws2)) ?ws2"
      using True by (simp add: int_mod_zero write_frame_def written_count_snoc add.commute)
    from Cons.IH [OF ok] show ?thesis
      unfolding step by simp
  next
    case False
    with Cons.prems assms(1) have ne: "ws \<noteq> []" and nf: "length (snd (last ws)) \<noteq> n"
      by (simp_all add: written_count_mod)
    let ?ws2 = "butlast ws @ [(fst (last ws), snd (last ws) @ [f])]"
    from Cons.prems ne nf have ok: "writers_ok pr n ?ws2"
      by (rule writers_ok_write)
    have len: "length ?ws2 = length ws" using ne by simp
    have step: "split_loop pr (int n) (f # rest) (length ws) (int (written_count ws)) ws
                  = split_loop pr (int n) rest (length ?ws2) (int (written_count ?ws2)) ?ws2"
      using False ne
      by (simp add: int_mod_zero write_frame_def written_count_write add.commute)
    from Cons.IH [OF ok] show ?thesis
      unfolding step by (simp only: concat_write [OF ne]) simp
  qed
qed

lemma release_writers_other:
  "p \<notin> fst ` set ws \<Longrightarrow> release_writers r w h ws fs p = fs p"
  unfolding release_writers_def
  by (induction ws arbitrary: fs) auto

lemma release_writers_read:
  "distinct (map fst ws) \<Longrightarrow> (p, fr) \<in> set ws \<Longrightarrow>
     release_writers r w h ws fs p = Some (written r w h fr)"
proof (induction ws arbitrary: fs)
  case Nil
  then show ?case by simp
next
  case (Cons a ws)
  show ?case
  proof (cases "(p, fr) \<in> set ws")
    case True
    with Cons show ?thesis by (simp add: release_writers_def)
  next
    case False
    with Cons.prems(2) have a: "a = (p, fr)" by simp
    with Cons.prems(1) have "p \<notin> fst ` set ws" by simp
    from release_writers_other [OF this, of r w h "fs(p \<mapsto> written r w h fr)"]
    show ?thesis by (simp add: release_writers_def a)
  qed
qed

lemma cap_frames_release:
  assumes "distinct (map fst ws)"
  shows "map (cap_frames (release_writers r w h ws fs)) (map fst ws) = map snd ws"
proof -
  have "cap_frames (release_writers r w h ws fs) (fst x) = snd x" if "x \<in> set ws" for x
    using release_writers_read [OF assms, of "fst x" "snd x" r w h fs] that
    by (simp add: cap_frames_def written_def)
  then show ?thesis by simp
qed

lemma writers_ok_distinct: "writers_ok pr n ws \<Longrightarrow> distinct (map fst ws)"
  by (auto simp: writers_ok_def distinct_map intro!: inj_onI dest: segment_name_inj)

lemma split_video_writers:
  assumes "fs (video_path pr) = Some v" and "fps v \<noteq> 0"
      and "py_int (to_double hst (fps v * segment_duration pr)) = int n" and "0 < n"
  shows "\<exists>ws. split_video hst pr fs
              = Inr (map fst ws,
                     if writer_opens (avc1 hst) (fps v) (width v) (height v)
                     then release_writers (fps v) (width v) (height v) ws fs else fs)
           \<and> writers_ok pr n ws \<and> concat (map snd ws) = frames v"
proof -
  have ok0: "writers_ok pr n ([] :: (string \<times> 'a list) list)"
    by (simp add: writers_ok_def)
  from split_loop_ok [OF assms(4) ok0, of "frames v"] obtain ws where
    ws: "split_loop pr (int n) (frames v) 0 0 [] = Inr ws" "writers_ok pr n ws"
        "concat (map snd ws) = frames v"
    by (auto simp: written_count_def)
  from assms ws have "split_video hst pr fs
              = Inr (map fst ws,
                     if writer_opens (avc1 hst) (fps v) (width v) (height v)
                     then release_writers (fps v) (width v) (height v) ws fs else fs)"
    by (simp add: split_video_def isOpened_def cap_fps_def cap_width_def cap_height_def
        cap_frames_def Let_def)
  with ws(2,3) show ?thesis by blast
qed

lemma writers_ok_count:
  assumes "writers_ok pr n ws" and "0 < n"
  shows "int (length ws) = \<lceil>real (written_count ws) / real n\<rceil>"
proof (cases "ws = []")
  case True
  then show ?thesis by (simp add: written_count_def)
next
  case False
  define l where "l = length (snd (last ws))"
  define k where "k = length ws - 1"
  have l: "1 \<le> l" "l \<le> n" using assms(1) False by (simp_all add: writers_ok_def l_def)
  have k: "length ws = k + 1" using False by (simp add: k_def Suc_le_eq)
  have F: "written_count ws = k * n + l"
    unfolding k_def l_def by (rule written_count_ok [OF assms(1) False])
  have "real (written_count ws) \<le> real (k + 1) * real n"
    unfolding F using l by (simp add: algebra_simps)
  then have up: "real (written_count ws) / real n \<le> of_int (int (length ws))"
    using assms(2) by (simp add: pos_divide_le_eq k)
  have "real k * real n < real (written_count ws)"
    unfolding F using l by simp
  then have lo: "of_int (int (length ws)) - 1 < real (written_count ws) / real n"
    using assms(2) by (simp add: pos_less_divide_eq k)
  from ceiling_unique [OF lo up] show ?thesis by simp
qed

lemma writers_ok_last:
  assumes "writers_ok pr n ws" and "0 < n" and "ws \<noteq> []"
  shows "length (snd (last ws))
           = (if written_count ws mod n = 0 then n else written_count ws mod n)"
proof -
  define l where "l = length (snd (last ws))"
  have l: "1 \<le> l" "l \<le> n" using assms(1,3) by (simp_all add: writers_ok_def l_def)
  have "written_count ws mod n = l mod n"
    using written_count_ok [OF assms(1,3)] by (simp add: l_def)
  with l show ?thesis unfolding l_def [symmetric] by (cases "l = n") simp_all
qed

lemma cap_frames_release_elem:
  assumes "distinct (map fst ws)" and "x \<in> set ws"
  shows "cap_frames (release_writers r w h ws fs) (fst x) = snd x"
  using release_writers_read [OF assms(1), of "fst x" "snd x" r w h fs] assms(2)
  by (simp add: cap_frames_def written_def)

lemma split_video_chunks:
  assumes "fs (video_path pr) = Some v"
      and "writer_opens (avc1 hst) (fps v) (width v) (height v)"
      and "py_int (to_double hst (fps v * segment_duration pr)) = int n" and "0 < n"
  shows "\<exists>paths fs'. split_video hst pr fs = Inr (paths, fs')
           \<and> paths = map (segment_name pr) [0..<length paths]
           \<and> int (length paths) = \<lceil>real (length (frames v)) / real n\<rceil>
           \<and> concat (map (cap_frames fs') paths) = frames v
           \<and> (\<forall>p \<in> set (butlast paths). length (cap_frames fs' p) = n)
           \<and> (paths \<noteq> [] \<longrightarrow> length (cap_frames fs' (last paths))
                 = (if length (frames v) mod n = 0 then n else length (frames v) mod n))"
proof -
  have r: "fps v \<noteq> 0" using assms(2) by (simp add: writer_opens_def)
  from split_video_writers [where fs = fs and pr = pr, OF assms(1) r assms(3,4)]
  obtain ws where
    sv: "split_video hst pr fs
           = Inr (map fst ws, release_writers (fps v) (width v) (height v) ws fs)" and
    ok: "writers_ok pr n ws" and all: "concat (map snd ws) = frames v"
    using assms(2) by auto
  let ?fs = "release_writers (fps v) (width v) (height v) ws fs"
  have d: "distinct (map fst ws)" by (rule writers_ok_distinct [OF ok])
  have rd: "cap_frames ?fs (fst x) = snd x" if "x \<in> set ws" for x
    by (rule cap_frames_release_elem [OF d that])
  have cnt: "written_count ws = length (frames v)"
    by (simp add: written_count_def all)
  have 1: "map fst ws = map (segment_name pr) [0..<length (map fst ws)]"
    using ok by (simp add: writers_ok_def)
  have 2: "int (length (map fst ws)) = \<lceil>real (length (frames v)) / real n\<rceil>"
    using writers_ok_count [OF ok assms(4)] by (simp add: cnt)
  have 3: "concat (map (cap_frames ?fs) (map fst ws)) = frames v"
    by (simp only: cap_frames_release [OF d] all)
  have 4: "\<forall>p \<in> set (butlast (map fst ws)). length (cap_frames ?fs p) = n"
  proof
    fix p assume "p \<in> set (butlast (map fst ws))"
    then obtain x where x: "x \<in> set (butlast ws)" "p = fst x"
      by (auto simp: map_butlast [symmetric])
    then have "x \<in> set ws" by (auto dest: in_set_butlastD)
    with x ok show "length (cap_frames ?fs p) = n"
      by (simp add: rd writers_ok_def)
  qed
  have 5: "length (cap_frames ?fs (last (map fst ws)))
             = (if length (frames v) mod n = 0 then n else length (frames v) mod n)"
    if "map fst ws \<noteq> []"
  proof -
    from that have ne: "ws \<noteq> []" by simp
    then have "cap_frames ?fs (last (map fst ws)) = snd (last ws)"
      by (simp add: last_map rd)
    with writers_ok_last [OF ok assms(4) ne] show ?thesis by (simp add: cnt)
  qed
  from sv 1 2 3 4 5 show ?thesis by blast
qed

text \<open>
  Without the codec no segment writer opens: the paths are returned, and no file is
  written.
\<close>

lemma split_video_no_codec:
  assumes "split_video hst pr fs = Inr (paths, fs')" and "\<not> avc1 hst"
  shows "fs' = fs"
  using assms
  by (auto simp: split_video_def Let_def writer_opens_def split: if_splits sum.splits)

subsection \<open>Frames per segment\<close>

text \<open>
  C3, as stated, fails: the frames per segment are \<open>int(fps * segment_duration)\<close>, the
  double product truncated, not rounded. At 29.875 frames per second and ten seconds the
  product is 298.75 (both are doubles, so the product is exact), and a source of 299
  frames is cut into two segments of 298 frames and 1 frame, where rounding gives 299
  frames per segment and so one segment.
\<close>

theorem split_video_truncates_counterexample:
  "(case split_video \<lparr>to_double = \<lambda>x. x, avc1 = True, mp4v = True\<rparr>
           (VideoProcessor ''uploads/j1_clip.mp4'')
           [''uploads/j1_clip.mp4'' \<mapsto>
              \<lparr>fps = 239 / 8, width = 640, height = 360,
               frames = replicate 299 (0::nat), audio = False\<rparr>] of
      Inl e \<Rightarrow> []
    | Inr (paths, fs') \<Rightarrow> map (\<lambda>p. length (cap_frames fs' p)) paths) = [298, 1]
   \<and> round (239 / 8 * 10 :: real) = 299 \<and> \<lceil>299 / 299 :: real\<rceil> = 1"
proof -
  let ?hst = "\<lparr>to_double = \<lambda>x. x, avc1 = True, mp4v = True\<rparr>"
  let ?v = "\<lparr>fps = 239 / 8, width = 640, height = 360,
             frames = replicate 299 (0::nat), audio = False\<rparr>"
  let ?fs = "[''uploads/j1_clip.mp4'' \<mapsto> ?v]"
  let ?pr = "VideoProcessor ''uploads/j1_clip.mp4''"
  have v: "?fs (video_path ?pr) = Some ?v" by (simp add: VideoProcessor_def)
  have w: "writer_opens (avc1 ?hst) (fps ?v) (width ?v) (height ?v)"
    by (simp add: writer_opens_def)
  have L: "py_int (to_double ?hst (fps ?v * segment_duration ?pr)) = int 298"
    by (simp add: py_int_def VideoProcessor_def)
  from split_video_chunks [where fs = ?fs and pr = ?pr and v = ?v and n = 298, OF v w L]
  obtain paths fs' where
    sv: "split_video ?hst ?pr ?fs = Inr (paths, fs')" and
    k: "int (length paths) = \<lceil>real (length (frames ?v)) / real 298\<rceil>" and
    b: "\<forall>p \<in> set (butlast paths). length (cap_frames fs' p) = 298" and
    l: "paths \<noteq> [] \<longrightarrow> length (cap_frames fs' (last paths))
          = (if length (frames ?v) mod 298 = 0 then 298 else length (frames ?v) mod 298)"
    by auto
  from k have "length paths = 2" by simp
  then obtain p q where pq: "paths = [p, q]"
    by (auto simp: length_Suc_conv eval_nat_numeral)
  from b l have "map (\<lambda>p. length (cap_frames fs' p)) paths = [298, 1]"
    unfolding pq by simp
  moreover have "round (239 / 8 * 10 :: real) = 299" by (simp add: round_def)
  ultimately show ?thesis by (simp add: sv)
qed

text \<open>
  C3, amended. Take a source that opens with a positive frame rate \<open>r\<close> and a positive
  width and height, on a host that encodes \<open>avc1\<close> (so every segment writer opens), and
  let \<open>L = int(r * d)\<close> be the double product of the frame rate and the segment
  duration \<open>d\<close>, truncated, with \<open>L \<ge> 1\<close>. With \<open>F\<close> the number of frames read,
  \<open>split_video\<close> returns \<open>ceil(F / L)\<close> segment paths; the frames of the segments,
  read back in order, are the frames of the source, so their counts sum to \<open>F\<close>; every
  segment but the last holds \<open>L\<close> frames, and the last holds \<open>F mod L\<close> frames, or
  \<open>L\<close> when \<open>L\<close> divides \<open>F\<close>.
\<close>

theorem split_video_segments:
  assumes "fs (video_path pr) = Some v"
      and "0 < fps v" and "0 < width v" and "0 < height v" and "avc1 hst"
      and "1 \<le> py_int (to_double hst (fps v * segment_duration pr))"
  shows "\<exists>paths fs'. split_video hst pr fs = Inr (paths, fs')
           \<and> (let L = nat (py_int (to_double hst (fps v * segment_duration pr)));
                  F = length (frames v)
              in int (length paths) = \<lceil>real F / real L\<rceil>
               \<and> concat (map (cap_frames fs') paths) = frames v
               \<and> (\<Sum>p\<leftarrow>paths. length (cap_frames fs' p)) = F
               \<and> (\<forall>p \<in> set (butlast paths). length (cap_frames fs' p) = L)
               \<and> (paths \<noteq> [] \<longrightarrow> length (cap_frames fs' (last paths))
                     = (if F mod L = 0 then L else F mod L)))"
proof -
  define n where "n = nat (py_int (to_double hst (fps v * segment_duration pr)))"
  from assms(6) have L: "py_int (to_double hst (fps v * segment_duration pr)) = int n"
    and n: "0 < n"
    by (simp_all add: n_def)
  have w: "writer_opens (avc1 hst) (fps v) (width v) (height v)"
    using assms(2-5) by (simp add: writer_opens_def)
  from split_video_chunks [where fs = fs and pr = pr, OF assms(1) w L n]
  obtain paths fs' where
    sv: "split_video hst pr fs = Inr (paths, fs')" and
    k: "int (length paths) = \<lceil>real (length (frames v)) / real n\<rceil>" and
    c: "concat (map (cap_frames fs') paths) = frames v" and
    b: "\<forall>p \<in> set (butlast paths). length (cap_frames fs' p) = n" and
    l: "paths \<noteq> [] \<longrightarrow> length (cap_frames fs' (last paths))
          = (if length (frames v) mod n = 0 then n else length (frames v) mod n)"
    by blast
  have "length (concat (map (cap_frames fs') paths)) = length (frames v)"
    by (simp only: c)
  then have s: "(\<Sum>p\<leftarrow>paths. length (cap_frames fs' p)) = length (frames v)"
    by (simp add: length_concat comp_def)
  from sv k c s b l show ?thesis
    unfolding n_def [symmetric] Let_def by (intro exI [of _ paths] exI [of _ fs']) simp
qed

theorem split_video_segments_witness:
  "(case split_video \<lparr>to_double = \<lambda>x. x, avc1 = True, mp4v = False\<rparr>
           (VideoProcessor ''uploads/j1_clip.mp4'')
           [''uploads/j1_clip.mp4'' \<mapsto>
              \<lparr>fps = 1 / 4, width = 640, height = 360,
               frames = [10, 20, 30, 40, 50 :: nat], audio = False\<rparr>] of
      Inl e \<Rightarrow> False
    | Inr (paths, fs') \<Rightarrow>
        paths = [''segments/segment_000.mp4'', ''segments/segment_001.mp4'',
                 ''segments/segment_002.mp4'']
        \<and> map (cap_frames fs') paths = [[10, 20], [30, 40], [50]])
   \<and> nat (py_int (1 / 4 * 10)) = 2 \<and> \<lceil>5 / 2 :: real\<rceil> = 3"
  using split_video_segments
    [of "[''uploads/j1_clip.mp4'' \<mapsto>
              \<lparr>fps = 1 / 4, width = 640, height = 360,
               frames = [10, 20, 30, 40, 50 :: nat], audio = False\<rparr>]"
        "VideoProcessor ''uploads/j1_clip.mp4''"
        "\<lparr>fps = 1 / 4, width = 640, height = 360,
               frames = [10, 20, 30, 40, 50 :: nat], audio = False\<rparr>"
        "\<lparr>to_double = \<lambda>x. x, avc1 = True, mp4v = False\<rparr>"]
  by (simp add: eval_defs)

section \<open>Properties of the worker pool and the merge\<close>

text \<open>
  The worker at a position writes its own output path and no other; a worker whose
  writer opens leaves there the filtered frames of its segment, whatever the other
  workers do and in whatever order they finish.
\<close>

lemma filter_frames_eq: "filter_frames g xs out = out @ map g xs"
  by (induction xs arbitrary: out) simp_all

lemma args_list_nth:
  "i < length segment_paths \<Longrightarrow>
     args_list pr segment_paths ftype ! i = (segment_paths ! i, ftype, par_name pr i, i + 1)"
  by (simp add: args_list_def enumerate_eq_zip)

lemma length_args_list [simp]: "length (args_list pr segment_paths ftype) = length segment_paths"
  by (simp add: args_list_def)


lemma worker_on_position:
  assumes "i < length segment_paths"
  shows "apply_filter_to_segment hst tr (args_list pr segment_paths ftype ! i) fs
           = (par_name pr i,
              if writer_opens (avc1 hst \<or> mp4v hst) (cap_fps fs (segment_paths ! i))
                   (cap_width fs (segment_paths ! i)) (cap_height fs (segment_paths ! i))
              then fs(par_name pr i \<mapsto>
                written (cap_fps fs (segment_paths ! i)) (cap_width fs (segment_paths ! i))
                  (cap_height fs (segment_paths ! i))
                  (map (get_filter_function tr ftype) (cap_frames fs (segment_paths ! i))))
              else fs)"
  by (auto simp: args_list_nth [OF assms] apply_filter_to_segment_def filter_frames_eq
      Let_def writer_opens_def)

lemma run_workers_step:
  assumes "j < length segment_paths"
  shows "run_workers (apply_filter_to_segment hst tr) (args_list pr segment_paths ftype)
           (j # order) fs
           = ((j, par_name pr j) #
                fst (run_workers (apply_filter_to_segment hst tr)
                       (args_list pr segment_paths ftype) order
                       (snd (apply_filter_to_segment hst tr
                          (args_list pr segment_paths ftype ! j) fs))),
              snd (run_workers (apply_filter_to_segment hst tr)
                     (args_list pr segment_paths ftype) order
                     (snd (apply_filter_to_segment hst tr
                        (args_list pr segment_paths ftype ! j) fs))))"
  by (simp add: worker_on_position [OF assms] split_beta)

lemma run_workers_results:
  assumes "\<forall>i \<in> set order. i < length segment_paths"
  shows "fst (run_workers (apply_filter_to_segment hst tr) (args_list pr segment_paths ftype)
           order fs)
           = map (\<lambda>i. (i, par_name pr i)) order"
  using assms
  by (induction order arbitrary: fs) (simp_all add: run_workers_step del: run_workers.simps(2))

lemma worker_other:
  assumes "i < length segment_paths" and "p \<noteq> par_name pr i"
  shows "snd (apply_filter_to_segment hst tr (args_list pr segment_paths ftype ! i) fs) p = fs p"
  using assms(2) by (simp add: worker_on_position [OF assms(1)])

lemma run_workers_other:
  assumes "\<forall>i \<in> set order. i < length segment_paths" and "p \<notin> par_name pr ` set order"
  shows "snd (run_workers (apply_filter_to_segment hst tr) (args_list pr segment_paths ftype)
           order fs) p
           = fs p"
  using assms
  by (induction order arbitrary: fs)
     (simp_all add: run_workers_step worker_other del: run_workers.simps(2))

lemma cap_other:
  assumes "fs' q = fs q"
  shows "cap_fps fs' q = cap_fps fs q" and "cap_width fs' q = cap_width fs q"
    and "cap_height fs' q = cap_height fs q" and "cap_frames fs' q = cap_frames fs q"
  using assms by (simp_all add: cap_fps_def cap_width_def cap_height_def cap_frames_def)

lemma run_workers_output:
  assumes "\<forall>i \<in> set order. i < length segment_paths"
      and "\<forall>i. par_name pr i \<notin> set segment_paths"
      and "i \<in> set order"
      and "writer_opens (avc1 hst \<or> mp4v hst) (cap_fps fs (segment_paths ! i))
             (cap_width fs (segment_paths ! i)) (cap_height fs (segment_paths ! i))"
  shows "snd (run_workers (apply_filter_to_segment hst tr) (args_list pr segment_paths ftype)
           order fs) (par_name pr i)
         = Some (written (cap_fps fs (segment_paths ! i)) (cap_width fs (segment_paths ! i))
                  (cap_height fs (segment_paths ! i))
                  (map (get_filter_function tr ftype) (cap_frames fs (segment_paths ! i))))"
  using assms(1,3,4)
proof (induction order arbitrary: fs)
  case Nil
  then show ?case by simp
next
  case (Cons j order)
  let ?fs1 = "snd (apply_filter_to_segment hst tr (args_list pr segment_paths ftype ! j) fs)"
  from Cons.prems have j: "j < length segment_paths" and
    rest: "\<forall>i \<in> set order. i < length segment_paths" by simp_all
  have run: "snd (run_workers (apply_filter_to_segment hst tr)
                    (args_list pr segment_paths ftype) (j # order) fs)
               = snd (run_workers (apply_filter_to_segment hst tr)
                        (args_list pr segment_paths ftype) order ?fs1)"
    by (simp add: run_workers_step [OF j] del: run_workers.simps(2))
  show ?case
  proof (cases "i \<in> set order")
    case True
    then have "i < length segment_paths" using rest by simp
    then have ne: "segment_paths ! i \<noteq> par_name pr j"
      using assms(2) by (metis nth_mem)
    have same: "?fs1 (segment_paths ! i) = fs (segment_paths ! i)"
      by (rule worker_other [OF j ne])
    note cap = cap_other [where fs' = ?fs1 and fs = fs and q = "segment_paths ! i", OF same]
    have "writer_opens (avc1 hst \<or> mp4v hst) (cap_fps ?fs1 (segment_paths ! i))
             (cap_width ?fs1 (segment_paths ! i)) (cap_height ?fs1 (segment_paths ! i))"
      using Cons.prems(3) by (simp only: cap)
    from Cons.IH [OF rest True this] show ?thesis
      unfolding run by (simp only: cap)
  next
    case False
    with Cons.prems(2) have ij: "i = j" by simp
    from False have "par_name pr j \<notin> par_name pr ` set order"
      unfolding ij [symmetric] by (auto dest: par_name_inj)
    from run_workers_other [OF rest this, of hst tr ftype ?fs1] show ?thesis
      unfolding run using Cons.prems(3) by (simp add: ij worker_on_position [OF j])
  qed
qed

lemma pool_map_workers:
  assumes "set order = {0..<length segment_paths}"
  shows "fst (pool_map (apply_filter_to_segment hst tr) (args_list pr segment_paths ftype)
           order fs)
           = map (par_name pr) [0..<length segment_paths]"
proof -
  have lt: "\<forall>i \<in> set order. i < length segment_paths" using assms by simp
  have "the (map_of (map (\<lambda>i. (i, par_name pr i)) order) i) = par_name pr i"
    if "i < length segment_paths" for i
  proof -
    from that assms have "i \<in> set order" by simp
    then have "map_of (map (\<lambda>i. (i, par_name pr i)) order) i = Some (par_name pr i)"
      by (induction order) auto
    then show ?thesis by simp
  qed
  then show ?thesis
    by (simp add: pool_map_def split_beta run_workers_results [OF lt])
qed

lemma pool_map_files:
  "snd (pool_map w args order fs) = snd (run_workers w args order fs)"
  by (simp add: pool_map_def split_beta)

text \<open>
  C4. Take segments that are readable videos of one frame size, with positive frame
  rates, on a host that encodes \<open>avc1\<close> or \<open>mp4v\<close>, and let the workers finish in
  any order (every position of the argument list finishes), with worker outputs that
  are none of the segments nor the merged output. Then \<open>process_parallel\<close> returns
  the output paths by segment index, each output holds the filtered frames of its
  segment, and \<open>merge_segments\<close> writes a file whose frame rate and geometry are those
  of the first result and whose frames are all frames of all results in index order.
  That file is determined by the segments alone: the order in which the workers finish
  does not enter it.
\<close>

theorem merge_in_segment_order:
  assumes "set order = {0..<length segment_paths}"
      and "segment_paths \<noteq> []"
      and "\<forall>i. par_name pr i \<notin> set segment_paths"
      and "\<forall>i. par_name pr i \<noteq> out_path"
      and "avc1 hst \<or> mp4v hst"
      and "0 < W" and "0 < H"
      and "\<forall>p \<in> set segment_paths.
             \<exists>v. fs p = Some v \<and> 0 < fps v \<and> width v = W \<and> height v = H"
  shows "\<exists>paths fs1 fs2.
           process_parallel hst pr tr order elapsed segment_paths ftype fs
             = ((paths, elapsed), fs1)
         \<and> paths = map (par_name pr) [0..<length segment_paths]
         \<and> map (cap_frames fs1) paths
             = map (\<lambda>p. map (get_filter_function tr ftype) (cap_frames fs p)) segment_paths
         \<and> merge_segments hst paths out_path fs1 = Inr fs2
         \<and> fs2 out_path
             = Some (written (cap_fps fs1 (hd paths)) (cap_width fs1 (hd paths))
                       (cap_height fs1 (hd paths)) (concat (map (cap_frames fs1) paths)))
         \<and> fs2 out_path
             = Some (written (cap_fps fs (hd segment_paths)) (cap_width fs (hd segment_paths))
                       (cap_height fs (hd segment_paths))
                       (concat (map (\<lambda>p. map (get_filter_function tr ftype) (cap_frames fs p))
                          segment_paths)))"
proof -
  let ?args = "args_list pr segment_paths ftype"
  let ?n = "length segment_paths"
  let ?paths = "map (par_name pr) [0..<?n]"
  let ?fs1 = "snd (run_workers (apply_filter_to_segment hst tr) ?args order fs)"
  let ?g = "get_filter_function tr ftype"
  have lt: "\<forall>i \<in> set order. i < ?n" using assms(1) by simp
  have pp: "process_parallel hst pr tr order elapsed segment_paths ftype fs
              = ((?paths, elapsed), ?fs1)"
    using pool_map_workers [OF assms(1), of hst tr pr ftype fs]
    by (simp add: process_parallel_def split_beta pool_map_files prod_eq_iff)
  have opens: "writer_opens (avc1 hst \<or> mp4v hst) (cap_fps fs (segment_paths ! i))
                 (cap_width fs (segment_paths ! i)) (cap_height fs (segment_paths ! i))"
    if "i < ?n" for i
  proof -
    from that have "segment_paths ! i \<in> set segment_paths" by simp
    with assms(8) obtain v where "fs (segment_paths ! i) = Some v" "0 < fps v"
      "width v = W" "height v = H" by blast
    with assms(5-7) show ?thesis
      by (simp add: writer_opens_def cap_fps_def cap_width_def cap_height_def)
  qed
  have out: "?fs1 (par_name pr i)
               = Some (written (cap_fps fs (segment_paths ! i)) (cap_width fs (segment_paths ! i))
                   (cap_height fs (segment_paths ! i)) (map ?g (cap_frames fs (segment_paths ! i))))"
    if "i < ?n" for i
  proof -
    from that assms(1) have "i \<in> set order" by simp
    from run_workers_output [OF lt assms(3) this opens [OF that]] show ?thesis .
  qed
  have rd: "cap_frames ?fs1 (par_name pr i) = map ?g (cap_frames fs (segment_paths ! i))"
    if "i < ?n" for i
    using out [OF that] by (simp add: cap_frames_def written_def)
  have "map (cap_frames ?fs1) ?paths = map (\<lambda>i. map ?g (cap_frames fs (segment_paths ! i))) [0..<?n]"
    by (simp add: rd)
  also have "\<dots> = map (\<lambda>p. map ?g (cap_frames fs p)) (map (\<lambda>i. segment_paths ! i) [0..<?n])"
    by (simp add: comp_def)
  also have "map (\<lambda>i. segment_paths ! i) [0..<?n] = segment_paths"
    by (rule map_nth)
  finally have fr: "map (cap_frames ?fs1) ?paths
                      = map (\<lambda>p. map ?g (cap_frames fs p)) segment_paths" .
  have n0: "0 < ?n" using assms(2) by simp
  then have hdp: "hd ?paths = par_name pr 0"
    by (simp add: hd_map upt_conv_Cons)
  have hds: "hd segment_paths = segment_paths ! 0"
    using assms(2) by (simp add: hd_conv_nth)
  have geo: "cap_fps ?fs1 (hd ?paths) = cap_fps fs (hd segment_paths)"
            "cap_width ?fs1 (hd ?paths) = cap_width fs (hd segment_paths)"
            "cap_height ?fs1 (hd ?paths) = cap_height fs (hd segment_paths)"
    unfolding hdp hds using out [OF n0]
    by (simp_all add: cap_fps_def cap_width_def cap_height_def written_def)
  have ne: "?paths \<noteq> []" using assms(2) by simp
  have wo: "writer_opens (avc1 hst \<or> mp4v hst) (cap_fps ?fs1 (hd ?paths))
              (cap_width ?fs1 (hd ?paths)) (cap_height ?fs1 (hd ?paths))"
    unfolding geo hds by (rule opens [OF n0])
  let ?fs2 = "?fs1(out_path \<mapsto>
                  written (cap_fps ?fs1 (hd ?paths)) (cap_width ?fs1 (hd ?paths))
                    (cap_height ?fs1 (hd ?paths)) (concat (map (cap_frames ?fs1) ?paths)))"
  have mg: "merge_segments hst ?paths out_path ?fs1 = Inr ?fs2"
    by (rule merge_segments_appends_all [OF ne wo])
  have o1: "?fs2 out_path
              = Some (written (cap_fps ?fs1 (hd ?paths)) (cap_width ?fs1 (hd ?paths))
                    (cap_height ?fs1 (hd ?paths)) (concat (map (cap_frames ?fs1) ?paths)))"
    by simp
  have o2: "?fs2 out_path
              = Some (written (cap_fps fs (hd segment_paths)) (cap_width fs (hd segment_paths))
                       (cap_height fs (hd segment_paths))
                       (concat (map (\<lambda>p. map ?g (cap_frames fs p)) segment_paths)))"
    by (simp only: geo fr fun_upd_same)
  from pp fr mg o1 o2 show ?thesis by blast
qed

theorem merge_in_segment_order_witness:
  "(case process_parallel \<lparr>to_double = \<lambda>x. x, avc1 = False, mp4v = True\<rparr>
          (VideoProcessor ''uploads/j1_clip.mp4'') (\<lambda>_. Suc) [1, 0] 2
          [''segments/segment_000.mp4'', ''segments/segment_001.mp4''] ''blur''
          [''segments/segment_000.mp4'' \<mapsto>
             \<lparr>fps = 30, width = 640, height = 360, frames = [10, 20 :: nat], audio = False\<rparr>,
           ''segments/segment_001.mp4'' \<mapsto>
             \<lparr>fps = 30, width = 640, height = 360, frames = [30], audio = False\<rparr>] of
      ((paths, t), fs1) \<Rightarrow>
        paths = [''outputs/par_processed_000.mp4'', ''outputs/par_processed_001.mp4'']
        \<and> map_sum id (\<lambda>fs2. fs2 ''outputs/j1_processed.mp4'')
            (merge_segments \<lparr>to_double = \<lambda>x. x, avc1 = False, mp4v = True\<rparr>
               paths ''outputs/j1_processed.mp4'' fs1)
          = Inr (Some \<lparr>fps = 30, width = 640, height = 360, frames = [11, 21, 31],
                       audio = False\<rparr>))"
  using merge_in_segment_order
    [of "[1, 0]" "[''segments/segment_000.mp4'', ''segments/segment_001.mp4'']"
        "VideoProcessor ''uploads/j1_clip.mp4''" "''outputs/j1_processed.mp4''"
        "\<lparr>to_double = \<lambda>x. x, avc1 = False, mp4v = True\<rparr>" 640 360
        "[''segments/segment_000.mp4'' \<mapsto>
             \<lparr>fps = 30, width = 640, height = 360, frames = [10, 20 :: nat], audio = False\<rparr>,
           ''segments/segment_001.mp4'' \<mapsto>
             \<lparr>fps = 30, width = 640, height = 360, frames = [30], audio = False\<rparr>]"
        "\<lambda>_. Suc" 2 "''blur''"]
  by (simp add: eval_defs)

end
